theory Spec2Isabelle
  imports Complex_Main "HOL-Library.Sublist"
begin

section \<open>Characters and strings as Python sees them\<close>

text \<open>
  A text is a list of characters; a character is a code point below 256 (Latin-1), which
  is the range of \<^typ>\<open>char\<close>. The classes below are Python's Unicode classes restricted
  to that range.
\<close>

definition ord :: "char \<Rightarrow> int" where
  "ord c = of_char c"

text \<open>\<^verbatim>\<open>\d\<close>: the decimal digits (category Nd); below 256 these are \<^verbatim>\<open>0-9\<close>.\<close>

definition is_decimal :: "char \<Rightarrow> bool" where
  "is_decimal c = (48 \<le> ord c \<and> ord c \<le> 57)"

text \<open>\<^verbatim>\<open>\s\<close> and \<^verbatim>\<open>str.strip()\<close>: \<^verbatim>\<open>str.isspace\<close>.\<close>

definition is_space :: "char \<Rightarrow> bool" where
  "is_space c = ((9 \<le> ord c \<and> ord c \<le> 13) \<or> (28 \<le> ord c \<and> ord c \<le> 32)
                 \<or> ord c = 133 \<or> ord c = 160)"

definition is_alpha :: "char \<Rightarrow> bool" where
  "is_alpha c = ((65 \<le> ord c \<and> ord c \<le> 90) \<or> (97 \<le> ord c \<and> ord c \<le> 122)
                 \<or> ord c = 170 \<or> ord c = 181 \<or> ord c = 186
                 \<or> (192 \<le> ord c \<and> ord c \<le> 214) \<or> (216 \<le> ord c \<and> ord c \<le> 246)
                 \<or> 248 \<le> ord c)"

text \<open>\<^verbatim>\<open>str.isdigit\<close>: the decimal digits and the superscripts two, three and one.\<close>

definition is_digit :: "char \<Rightarrow> bool" where
  "is_digit c = (is_decimal c \<or> ord c = 178 \<or> ord c = 179 \<or> ord c = 185)"

text \<open>\<^verbatim>\<open>\w\<close>: \<^verbatim>\<open>str.isalnum\<close> (letters, digits, the vulgar fractions) or the underscore.\<close>

definition is_word :: "char \<Rightarrow> bool" where
  "is_word c = (is_alpha c \<or> is_digit c \<or> (188 \<le> ord c \<and> ord c \<le> 190) \<or> ord c = 95)"

text \<open>
  Case folding for \<^verbatim>\<open>re.IGNORECASE\<close>. Every literal of the patterns below is an ASCII
  character, and below 256 an ASCII letter has no other case variant than its ASCII one,
  so folding the ASCII capitals decides every comparison the patterns make.
\<close>

definition lower :: "char \<Rightarrow> char" where
  "lower c = (case map_of (zip ''ABCDEFGHIJKLMNOPQRSTUVWXYZ'' ''abcdefghijklmnopqrstuvwxyz'') c of
                Some l \<Rightarrow> l | None \<Rightarrow> c)"

text \<open>\<^verbatim>\<open>str.strip()\<close>\<close>

definition strip :: "string \<Rightarrow> string" where
  "strip s = rev (dropWhile is_space (rev (dropWhile is_space s)))"

text \<open>\<^verbatim>\<open>str.split('\n')\<close>: the pieces between newlines; the empty text gives one empty piece.\<close>

fun split_nl :: "string \<Rightarrow> string list" where
  "split_nl [] = [[]]"
| "split_nl (c # cs) =
     (if c = CHR 0x0A then [] # split_nl cs
      else (case split_nl cs of l # ls \<Rightarrow> (c # l) # ls | [] \<Rightarrow> [[c]]))"

text \<open>\<^verbatim>\<open>str.isdigit()\<close>: non-empty and every character a digit.\<close>

definition isdigit :: "string \<Rightarrow> bool" where
  "isdigit s = (s \<noteq> [] \<and> list_all is_digit s)"

text \<open>\<^verbatim>\<open>line.replace(' ', '')\<close>\<close>

definition remove_spaces :: "string \<Rightarrow> string" where
  "remove_spaces s = filter (\<lambda>c. c \<noteq> CHR '' '') s"

section \<open>The regular expressions of the service\<close>

text \<open>
  The patterns of \<^verbatim>\<open>main.py\<close> use single characters and classes, counted repetition of
  a single character or class (greedy, and lazy in \<^verbatim>\<open>.+?\<close>), groups, alternatives of
  literal words, and the anchors. A pattern is the list of its items, in the order of the
  regular expression.
\<close>

datatype atom =
    Lit char
  | Digit
  | Word
  | Space
  | Dot
  | OneOf "atom list"

datatype item =
    One atom
  | Rep atom nat "nat option" bool
  | Open nat
  | Close nat
  | Alts "string list"
  | Bol
  | Eol

type_synonym pattern = "item list"

fun atom_ok :: "bool \<Rightarrow> atom \<Rightarrow> char \<Rightarrow> bool" where
  "atom_ok ic (Lit l) c = (if ic then lower c = lower l else c = l)"
| "atom_ok ic Digit c = is_decimal c"
| "atom_ok ic Word c = is_word c"
| "atom_ok ic Space c = is_space c"
| "atom_ok ic Dot c = (c \<noteq> CHR 0x0A)"
| "atom_ok ic (OneOf as) c = (\<exists>a \<in> set as. atom_ok ic a c)"

text \<open>The marks of a match: where each group was opened, and what each closed group holds.\<close>

record marks =
  opened :: "nat \<Rightarrow> string"
  groups :: "nat \<Rightarrow> string option"

definition no_marks :: marks where
  "no_marks = \<lparr>opened = (\<lambda>_. []), groups = (\<lambda>_. None)\<rparr>"

fun first_some :: "('a \<Rightarrow> 'b option) \<Rightarrow> 'a list \<Rightarrow> 'b option" where
  "first_some f [] = None"
| "first_some f (x # xs) = (case f x of Some r \<Rightarrow> Some r | None \<Rightarrow> first_some f xs)"

text \<open>How many leading characters satisfy \<open>p\<close>, at most the limit when there is one.\<close>

fun run_length :: "(char \<Rightarrow> bool) \<Rightarrow> nat option \<Rightarrow> string \<Rightarrow> nat" where
  "run_length p hi [] = 0"
| "run_length p hi (c # cs) =
     (if hi = Some 0 \<or> \<not> p c then 0
      else Suc (run_length p (map_option (\<lambda>n. n - 1) hi) cs))"

text \<open>
  The repetition counts a backtracking matcher tries, in its order: a greedy repetition
  takes as many as it can and gives back one at a time, a lazy one starts from the minimum.
\<close>

definition counts :: "bool \<Rightarrow> nat \<Rightarrow> nat \<Rightarrow> nat list" where
  "counts greedy lo n = (if greedy then rev [lo..<Suc n] else [lo..<Suc n])"

fun is_prefix_ci :: "bool \<Rightarrow> string \<Rightarrow> string \<Rightarrow> bool" where
  "is_prefix_ci ic [] s = True"
| "is_prefix_ci ic (w # ws) [] = False"
| "is_prefix_ci ic (w # ws) (c # cs) = (atom_ok ic (Lit w) c \<and> is_prefix_ci ic ws cs)"

text \<open>
  \<open>match_here ic p i s m\<close> matches the pattern \<open>p\<close> at position \<open>i\<close> of the text, \<open>s\<close> being
  the text from there on; it returns the rest of the text after the match and the marks,
  or \<open>None\<close> when every alternative has failed.
\<close>

fun match_here :: "bool \<Rightarrow> pattern \<Rightarrow> nat \<Rightarrow> string \<Rightarrow> marks \<Rightarrow> (string \<times> marks) option" where
  "match_here ic [] i s m = Some (s, m)"
| "match_here ic (One a # r) i s m =
     (case s of [] \<Rightarrow> None
      | c # cs \<Rightarrow> if atom_ok ic a c then match_here ic r (Suc i) cs m else None)"
| "match_here ic (Rep a lo hi greedy # r) i s m =
     first_some (\<lambda>k. match_here ic r (i + k) (drop k s) m)
       (counts greedy lo (run_length (atom_ok ic a) hi s))"
| "match_here ic (Open g # r) i s m =
     match_here ic r i s (m\<lparr>opened := (opened m)(g := s)\<rparr>)"
| "match_here ic (Close g # r) i s m =
     match_here ic r i s
       (m\<lparr>groups := (groups m)(g \<mapsto> take (length (opened m g) - length s) (opened m g))\<rparr>)"
| "match_here ic (Alts ws # r) i s m =
     first_some (\<lambda>w. if is_prefix_ci ic w s
                      then match_here ic r (i + length w) (drop (length w) s) m else None) ws"
| "match_here ic (Bol # r) i s m = (if i = 0 then match_here ic r i s m else None)"
| "match_here ic (Eol # r) i s m =
     (if s = [] \<or> s = [CHR 0x0A] then match_here ic r i s m else None)"

text \<open>\<^verbatim>\<open>re.search\<close>: the match at the leftmost position that has one.\<close>

fun search_from :: "bool \<Rightarrow> pattern \<Rightarrow> nat \<Rightarrow> string \<Rightarrow> marks option" where
  "search_from ic p i [] = map_option snd (match_here ic p i [] no_marks)"
| "search_from ic p i (c # cs) =
     (case match_here ic p i (c # cs) no_marks of
        Some (_, m) \<Rightarrow> Some m
      | None \<Rightarrow> search_from ic p (Suc i) cs)"

definition re_search :: "bool \<Rightarrow> pattern \<Rightarrow> string \<Rightarrow> marks option" where
  "re_search ic p text = search_from ic p 0 text"

text \<open>\<^verbatim>\<open>re.match\<close>: the match at the start of the text only.\<close>

definition re_match :: "bool \<Rightarrow> pattern \<Rightarrow> string \<Rightarrow> marks option" where
  "re_match ic p text = map_option snd (match_here ic p 0 text no_marks)"

text \<open>\<^verbatim>\<open>match.group(g)\<close>; every group of the patterns below is set by every match.\<close>

definition group :: "marks \<Rightarrow> nat \<Rightarrow> string" where
  "group m g = (case groups m g of Some v \<Rightarrow> v | None \<Rightarrow> [])"

section \<open>Numbers\<close>

text \<open>
  The exceptions a call can raise. \<^verbatim>\<open>ValueError\<close> and the other exceptions that carry a
  message are instances of \<^verbatim>\<open>Exception\<close>. \<^verbatim>\<open>asyncio.CancelledError\<close>, which an \<^verbatim>\<open>await\<close> raises
  when the request is cancelled, and the other direct descendants of \<^verbatim>\<open>BaseException\<close>
  (\<^verbatim>\<open>KeyboardInterrupt\<close>, \<^verbatim>\<open>SystemExit\<close>) are not.
\<close>

datatype exn =
    ValueError string
  | OtherException string
  | CancelledError
  | OtherBaseException string

text \<open>\<^verbatim>\<open>isinstance(e, Exception)\<close>\<close>

fun is_Exception :: "exn \<Rightarrow> bool" where
  "is_Exception (ValueError s) = True"
| "is_Exception (OtherException s) = True"
| "is_Exception CancelledError = False"
| "is_Exception (OtherBaseException s) = False"

text \<open>\<^verbatim>\<open>str(e)\<close>\<close>

fun message :: "exn \<Rightarrow> string" where
  "message (ValueError s) = ''could not convert string to float: '' @ s"
| "message (OtherException s) = s"
| "message CancelledError = []"
| "message (OtherBaseException s) = s"

definition digits_value :: "string \<Rightarrow> int" where
  "digits_value s = foldl (\<lambda>n c. 10 * n + (ord c - 48)) 0 s"

text \<open>
  \<^verbatim>\<open>float(s)\<close> on an unsigned decimal literal: digits, with at most one point, and a digit
  on at least one side of it. The amount is kept as the exact decimal the literal denotes;
  the Python float is the double nearest to it, and the comparisons the service makes
  (with \<open>0\<close> and with \<open>10000\<close>) have the same outcome on both. Python's \<^verbatim>\<open>float\<close> reads more
  (signs, exponents, blanks around the literal, \<^verbatim>\<open>inf\<close>, \<^verbatim>\<open>nan\<close>, underscores between
  digits); here every other string is a \<^verbatim>\<open>ValueError\<close>.
\<close>

definition float :: "string \<Rightarrow> exn + rat" where
  "float s =
     (let whole = takeWhile is_decimal s; r = dropWhile is_decimal s in
      case r of
        [] \<Rightarrow> if whole = [] then Inl (ValueError s) else Inr (of_int (digits_value whole))
      | c # fraction \<Rightarrow>
          if c = CHR ''.'' \<and> list_all is_decimal fraction \<and> (whole \<noteq> [] \<or> fraction \<noteq> [])
          then Inr (of_int (digits_value whole) + of_int (digits_value fraction) / 10 ^ length fraction)
          else Inl (ValueError s))"

section \<open>\<^verbatim>\<open>parse_receipt_text\<close>\<close>

abbreviation many0 :: "atom \<Rightarrow> item" where "many0 a \<equiv> Rep a 0 None True"
abbreviation many1 :: "atom \<Rightarrow> item" where "many1 a \<equiv> Rep a 1 None True"
abbreviation optional :: "atom \<Rightarrow> item" where "optional a \<equiv> Rep a 0 (Some 1) True"
abbreviation between :: "atom \<Rightarrow> nat \<Rightarrow> nat \<Rightarrow> item" where "between a lo hi \<equiv> Rep a lo (Some hi) True"

definition lit :: "string \<Rightarrow> pattern" where
  "lit w = map (\<lambda>c. One (Lit c)) w"

text \<open>\<^verbatim>\<open>\d{3}[-.\s]?\d{3}[-.\s]?\d{4}\<close>\<close>

definition phone_pattern :: pattern where
  "phone_pattern =
     [between Digit 3 3, optional (OneOf [Lit CHR ''-'', Lit CHR ''.'', Space]),
      between Digit 3 3, optional (OneOf [Lit CHR ''-'', Lit CHR ''.'', Space]),
      between Digit 4 4]"

text \<open>\<^verbatim>\<open>\d+\s+\w+\s+(st|street|ave|road|rd|blvd)\<close>\<close>

definition address_pattern :: pattern where
  "address_pattern =
     [many1 Digit, many1 Space, many1 Word, many1 Space,
      Open 1, Alts [''st'', ''street'', ''ave'', ''road'', ''rd'', ''blvd''], Close 1]"

text \<open>
  \<^verbatim>\<open>(\d{1,2}[/-]\d{1,2}[/-]\d{2,4})\<close>, \<^verbatim>\<open>(\d{4}[/-]\d{1,2}[/-]\d{1,2})\<close>,
  \<^verbatim>\<open>(\w{3}\s+\d{1,2},?\s+\d{4})\<close>, \<^verbatim>\<open>(\d{1,2}\s+\w{3}\s+\d{4})\<close>
\<close>

definition date_patterns :: "pattern list" where
  "date_patterns =
     [[Open 1, between Digit 1 2, One (OneOf [Lit CHR ''/'', Lit CHR ''-'']), between Digit 1 2,
       One (OneOf [Lit CHR ''/'', Lit CHR ''-'']), between Digit 2 4, Close 1],
      [Open 1, between Digit 4 4, One (OneOf [Lit CHR ''/'', Lit CHR ''-'']), between Digit 1 2,
       One (OneOf [Lit CHR ''/'', Lit CHR ''-'']), between Digit 1 2, Close 1],
      [Open 1, between Word 3 3, many1 Space, between Digit 1 2, optional (Lit CHR '',''), many1 Space,
       between Digit 4 4, Close 1],
      [Open 1, between Digit 1 2, many1 Space, between Word 3 3, many1 Space, between Digit 4 4,
       Close 1]]"

text \<open>The common tail of the amount patterns: \<^verbatim>\<open>[:\s]*\$?(\d+\.?\d*)\<close>\<close>

definition amount_tail :: pattern where
  "amount_tail =
     [many0 (OneOf [Lit CHR '':'', Space]), optional (Lit (CHR ''$'')),
      Open 1, many1 Digit, optional (Lit CHR ''.''), many0 Digit, Close 1]"

text \<open>
  \<^verbatim>\<open>total[:\s]*\$?(\d+\.?\d*)\<close>, \<^verbatim>\<open>grand\s*total[:\s]*\$?(\d+\.?\d*)\<close>,
  \<^verbatim>\<open>amount\s*due[:\s]*\$?(\d+\.?\d*)\<close>, \<^verbatim>\<open>balance[:\s]*\$?(\d+\.?\d*)\<close>
\<close>

definition total_patterns :: "pattern list" where
  "total_patterns =
     [lit ''total'' @ amount_tail,
      lit ''grand'' @ [many0 Space] @ lit ''total'' @ amount_tail,
      lit ''amount'' @ [many0 Space] @ lit ''due'' @ amount_tail,
      lit ''balance'' @ amount_tail]"

text \<open>\<^verbatim>\<open>sub\s*total[:\s]*\$?(\d+\.?\d*)\<close>\<close>

definition subtotal_pattern :: pattern where
  "subtotal_pattern = lit ''sub'' @ [many0 Space] @ lit ''total'' @ amount_tail"

text \<open>
  \<^verbatim>\<open>tax[:\s]*\$?(\d+\.?\d*)\<close>, \<^verbatim>\<open>sales\s*tax[:\s]*\$?(\d+\.?\d*)\<close>,
  \<^verbatim>\<open>vat[:\s]*\$?(\d+\.?\d*)\<close>
\<close>

definition tax_patterns :: "pattern list" where
  "tax_patterns =
     [lit ''tax'' @ amount_tail,
      lit ''sales'' @ [many0 Space] @ lit ''tax'' @ amount_tail,
      lit ''vat'' @ amount_tail]"

text \<open>\<^verbatim>\<open>tip[:\s]*\$?(\d+\.?\d*)\<close>\<close>

definition tip_pattern :: pattern where
  "tip_pattern = lit ''tip'' @ amount_tail"

text \<open>\<^verbatim>\<open>^(.+?)\s+\$?(\d+\.\d{2})\s*$\<close>\<close>

definition item_pattern :: pattern where
  "item_pattern =
     [Bol, Open 1, Rep Dot 1 None False, Close 1, many1 Space, optional (Lit (CHR ''$'')),
      Open 2, many1 Digit, One (Lit CHR ''.''), between Digit 2 2, Close 2, many0 Space, Eol]"

text \<open>\<^verbatim>\<open>(total|tax|tip|subtotal|balance|change|cash|credit|visa|mastercard)\<close>\<close>

definition summary_pattern :: pattern where
  "summary_pattern =
     [Open 1, Alts [''total'', ''tax'', ''tip'', ''subtotal'', ''balance'', ''change'', ''cash'',
                    ''credit'', ''visa'', ''mastercard''], Close 1]"

text \<open>
  The result dictionary. The key \<^verbatim>\<open>total\<close> is the field \<open>total_amount\<close>; an item is its
  description and its amount.
\<close>

record receipt_fields =
  merchant :: "string option"
  date :: "string option"
  total_amount :: "rat option"
  subtotal :: "rat option"
  tax :: "rat option"
  tip :: "rat option"
  items :: "(string \<times> rat) list"

text \<open>The lines: stripped, the blank ones dropped, in order.\<close>

definition text_lines :: "string \<Rightarrow> string list" where
  "text_lines text = map strip (filter (\<lambda>line. strip line \<noteq> []) (split_nl (strip text)))"

text \<open>The merchant loop over \<^verbatim>\<open>lines[:5]\<close>: the first line that passes the three tests.\<close>

fun find_merchant :: "string list \<Rightarrow> string option" where
  "find_merchant [] = None"
| "find_merchant (line # rest) =
     (if re_search False phone_pattern line = None then
        if re_search True address_pattern line = None then
          if length line > 2 \<and> \<not> isdigit (remove_spaces line) then Some line
          else find_merchant rest
        else find_merchant rest
      else find_merchant rest)"

text \<open>The date loop: the first pattern that matches gives the date, and the loop stops.\<close>

fun find_date :: "pattern list \<Rightarrow> string \<Rightarrow> string option" where
  "find_date [] text = None"
| "find_date (p # ps) text =
     (case re_search True p text of
        Some m \<Rightarrow> Some (group m 1)
      | None \<Rightarrow> find_date ps text)"

text \<open>
  The loops for total and tax: the first pattern that matches and whose capture converts
  gives the amount; a \<^verbatim>\<open>ValueError\<close> is passed over and the next pattern is tried.
\<close>

fun find_amount :: "pattern list \<Rightarrow> string \<Rightarrow> rat option" where
  "find_amount [] text = None"
| "find_amount (p # ps) text =
     (case re_search True p text of
        Some m \<Rightarrow> (case float (group m 1) of
                     Inr v \<Rightarrow> Some v
                   | Inl e \<Rightarrow> find_amount ps text)
      | None \<Rightarrow> find_amount ps text)"

text \<open>Subtotal and tip: one pattern each; a \<^verbatim>\<open>ValueError\<close> leaves the field unset.\<close>

definition single_amount :: "pattern \<Rightarrow> string \<Rightarrow> rat option" where
  "single_amount p text =
     (case re_search True p text of
        Some m \<Rightarrow> (case float (group m 1) of Inr v \<Rightarrow> Some v | Inl e \<Rightarrow> None)
      | None \<Rightarrow> None)"

text \<open>
  The item loop, with the list built so far. The conversion of the price is not guarded
  in the source, so its \<^verbatim>\<open>ValueError\<close> would leave the function.
\<close>

fun extract_items :: "string list \<Rightarrow> (string \<times> rat) list \<Rightarrow> exn + (string \<times> rat) list" where
  "extract_items [] acc = Inr acc"
| "extract_items (line # rest) acc =
     (if re_search True summary_pattern line \<noteq> None then extract_items rest acc
      else case re_match False item_pattern line of
        None \<Rightarrow> extract_items rest acc
      | Some m \<Rightarrow>
          (let item_name = strip (group m 1) in
           case float (group m 2) of
             Inl e \<Rightarrow> Inl e
           | Inr item_price \<Rightarrow>
               if length item_name > 2 \<and> item_price > 0 \<and> item_price < 10000
               then extract_items rest (acc @ [(item_name, item_price)])
               else extract_items rest acc))"

definition parse_receipt_text :: "string \<Rightarrow> exn + receipt_fields" where
  "parse_receipt_text text =
     (let lines = text_lines text in
      case extract_items lines [] of
        Inl e \<Rightarrow> Inl e
      | Inr its \<Rightarrow>
          Inr \<lparr>merchant = find_merchant (take 5 lines),
               date = find_date date_patterns text,
               total_amount = find_amount total_patterns text,
               subtotal = single_amount subtotal_pattern text,
               tax = find_amount tax_patterns text,
               tip = single_amount tip_pattern text,
               items = its\<rparr>)"

text \<open>
  The specification's words for the item loop: a retained line (one without a summary
  keyword) that the item pattern matches yields the candidate of its trimmed description
  and its amount, and a candidate is acceptable when the description has more than two
  characters and the amount lies strictly between 0 and 10000.
\<close>

definition item_candidate :: "string \<Rightarrow> (string \<times> rat) option" where
  "item_candidate line =
     (if re_search True summary_pattern line \<noteq> None then None
      else case re_match False item_pattern line of
        None \<Rightarrow> None
      | Some m \<Rightarrow> (case float (group m 2) of
                     Inr amount \<Rightarrow> Some (strip (group m 1), amount)
                   | Inl e \<Rightarrow> None))"

definition acceptable :: "string \<times> rat \<Rightarrow> bool" where
  "acceptable c = (length (fst c) > 2 \<and> 0 < snd c \<and> snd c < 10000)"

section \<open>The external collaborators\<close>

text \<open>
  The image library, OpenCV, NumPy and Tesseract are outside the service. Each call into
  them either returns a value or raises; an image is a value of a type the model does not
  look into. \<open>hough_lines\<close> stands for edge detection followed by \<^verbatim>\<open>cv2.HoughLines\<close>, which
  gives \<open>None\<close> or the detected lines as pairs \<open>(rho, theta)\<close>; \<open>image_to_data\<close> gives the
  confidence column, one integer per token.

  A NumPy scalar is taken as the real number it denotes. The arithmetic on the angles is
  NumPy's: \<open>f_mul\<close>, \<open>f_div\<close> and \<open>f_sub\<close> are its multiplication, division and subtraction
  of scalars, \<open>np_pi\<close> is the constant \<^verbatim>\<open>np.pi\<close> and \<open>np_mean\<close> is \<^verbatim>\<open>np.mean\<close>. Which precision
  an operation works in and how it rounds is the library's business and lies inside these
  functions. Taking the absolute value and comparing with 45 or with 0.5 are exact on the
  numbers the scalars denote.
\<close>

record ('f, 'img) backend =
  content_type :: "'f \<Rightarrow> string"
  read_file :: "'f \<Rightarrow> exn + string"
  image_open :: "string \<Rightarrow> exn + 'img"
  mode :: "'img \<Rightarrow> string"
  convert :: "'img \<Rightarrow> string \<Rightarrow> exn + 'img"
  preprocess_image :: "'img \<Rightarrow> exn + 'img"
  hough_lines :: "'img \<Rightarrow> exn + (real \<times> real) list option"
  f_mul :: "real \<Rightarrow> real \<Rightarrow> real"
  f_div :: "real \<Rightarrow> real \<Rightarrow> real"
  f_sub :: "real \<Rightarrow> real \<Rightarrow> real"
  np_pi :: real
  np_mean :: "real list \<Rightarrow> real"
  rotate :: "'img \<Rightarrow> real \<Rightarrow> nat \<Rightarrow> bool \<Rightarrow> exn + 'img"
  image_to_data :: "'img \<Rightarrow> exn + int list"
  image_to_string :: "'img \<Rightarrow> exn + string"

text \<open>Sequencing of calls that may raise: the first exception ends the sequence.\<close>

definition and_then :: "exn + 'a \<Rightarrow> ('a \<Rightarrow> exn + 'b) \<Rightarrow> exn + 'b" where
  "and_then r f = (case r of Inl e \<Rightarrow> Inl e | Inr v \<Rightarrow> f v)"

section \<open>\<^verbatim>\<open>deskew_image\<close>\<close>

text \<open>The loop over \<^verbatim>\<open>lines[:10]\<close>, with the angles kept so far.\<close>

fun collect_angles ::
    "('f, 'img) backend \<Rightarrow> (real \<times> real) list \<Rightarrow> real list \<Rightarrow> real list" where
  "collect_angles env [] angles = angles"
| "collect_angles env ((rho, theta) # rest) angles =
     (let angle = f_sub env (f_div env (f_mul env theta 180) (np_pi env)) 90 in
      if \<bar>angle\<bar> < 45 then collect_angles env rest (angles @ [angle])
      else collect_angles env rest angles)"

definition deskew_image :: "('f, 'img) backend \<Rightarrow> 'img \<Rightarrow> exn + 'img" where
  "deskew_image env img =
     and_then (hough_lines env img) (\<lambda>lines.
       case lines of
         None \<Rightarrow> Inr img
       | Some ls \<Rightarrow>
           (let angles = collect_angles env (take 10 ls) [] in
            if angles \<noteq> [] then
              (let avg_angle = np_mean env angles in
               if \<bar>avg_angle\<bar> > 0.5 then rotate env img avg_angle 255 True
               else Inr img)
            else Inr img))"

section \<open>\<^verbatim>\<open>extract_text\<close>\<close>

definition scalar_confidence :: "int list \<Rightarrow> rat" where
  "scalar_confidence conf =
     (let confidences = filter (\<lambda>c. c > 0) conf;
          avg_confidence = (if confidences \<noteq> []
                            then of_int (sum_list confidences) / of_nat (length confidences)
                            else 0)
      in avg_confidence / 100)"

definition extract_text :: "('f, 'img) backend \<Rightarrow> 'img \<Rightarrow> exn + (string \<times> rat)" where
  "extract_text env img =
     and_then (image_to_data env img) (\<lambda>conf.
     and_then (image_to_string env img) (\<lambda>text.
       Inr (text, scalar_confidence conf)))"

section \<open>\<^verbatim>\<open>scan_receipt\<close>\<close>

record receipt_data = receipt_fields +
  raw_text :: string
  confidence :: rat

record ocr_response =
  success :: bool
  job_id :: string
  data :: "receipt_data option"
  error :: "string option"

text \<open>
  What can leave the endpoint as an exception: the \<^verbatim>\<open>HTTPException\<close> it raises itself, or
  an exception of the \<^verbatim>\<open>try\<close> block that \<^verbatim>\<open>except Exception\<close> does not catch.
\<close>

datatype escaped = HTTPException nat string | Propagated exn

definition allowed_types :: "string list" where
  "allowed_types = [''image/jpeg'', ''image/png'', ''image/webp'', ''image/jpg'']"

text \<open>The body of the \<^verbatim>\<open>try\<close> block, up to the receipt data.\<close>

definition scan_body :: "('f, 'img) backend \<Rightarrow> 'f \<Rightarrow> exn + receipt_data" where
  "scan_body env file =
     and_then (read_file env file) (\<lambda>contents.
     and_then (image_open env contents) (\<lambda>img.
     and_then (if mode env img \<in> {''RGBA'', ''P''} then convert env img ''RGB''
               else Inr img) (\<lambda>img.
     and_then (preprocess_image env img) (\<lambda>processed.
     and_then (deskew_image env processed) (\<lambda>processed.
     and_then (extract_text env processed) (\<lambda>(raw, conf).
     and_then (parse_receipt_text raw) (\<lambda>parsed_data.
       Inr \<lparr>merchant = merchant parsed_data,
            date = date parsed_data,
            total_amount = total_amount parsed_data,
            subtotal = subtotal parsed_data,
            tax = tax parsed_data,
            tip = tip parsed_data,
            items = items parsed_data,
            raw_text = raw,
            confidence = conf\<rparr>)))))))"

text \<open>
  The endpoint: \<open>Inl\<close> is an exception that leaves the function, \<open>Inr\<close> the response it
  returns. The identifier of the job is drawn before the call.
\<close>

definition scan_receipt ::
    "('f, 'img) backend \<Rightarrow> string \<Rightarrow> 'f \<Rightarrow> escaped + ocr_response" where
  "scan_receipt env job file =
     (if content_type env file \<notin> set allowed_types
      then Inl (HTTPException 400
             (''Invalid file type. Allowed: image/jpeg, image/png, image/webp, image/jpg''))
      else case scan_body env file of
             Inr receipt \<Rightarrow>
               Inr \<lparr>success = True, job_id = job, data = Some receipt, error = None\<rparr>
           | Inl e \<Rightarrow>
               if is_Exception e
               then Inr \<lparr>success = False, job_id = job, data = None, error = Some (message e)\<rparr>
               else Inl (Propagated e))"

section \<open>A backend for examples\<close>

text \<open>
  Uploads are named by a string and an image is its orientation in degrees. Every call
  succeeds: the upload has the given content type, line detection gives the given lines,
  the arithmetic is exact, rotation adds the angle to the orientation, and the engine
  reports the given confidences and text.
\<close>

definition sample_backend ::
    "string \<Rightarrow> (real \<times> real) list option \<Rightarrow> int list \<Rightarrow> string \<Rightarrow> (string, real) backend" where
  "sample_backend ctype lines conf text =
     \<lparr>content_type = (\<lambda>f. ctype),
      read_file = (\<lambda>f. Inr f),
      image_open = (\<lambda>contents. Inr 0),
      mode = (\<lambda>img. ''RGB''),
      convert = (\<lambda>img m. Inr img),
      preprocess_image = (\<lambda>img. Inr img),
      hough_lines = (\<lambda>img. Inr lines),
      f_mul = (\<lambda>x y. x * y),
      f_div = (\<lambda>x y. x / y),
      f_sub = (\<lambda>x y. x - y),
      np_pi = pi,
      np_mean = (\<lambda>xs. sum_list xs / real (length xs)),
      rotate = (\<lambda>img angle fillcolor expand. Inr (img + angle)),
      image_to_data = (\<lambda>img. Inr conf),
      image_to_string = (\<lambda>img. Inr text)\<rparr>"

section \<open>The example receipt\<close>

text \<open>\<^verbatim>\<open>'\n'.join(lines)\<close>\<close>

fun join_lines :: "string list \<Rightarrow> string" where
  "join_lines [] = []"
| "join_lines [l] = l"
| "join_lines (l # ls) = l @ CHR 0x0A # join_lines ls"

definition joes_diner :: string where
  "joes_diner = join_lines [''Joe's Diner'', ''123 Main St'', ''555-123-4567'', ''Coffee 3.50'',
                            ''Bagel 2.25'', ''Subtotal 5.75'', ''Tax 0.50'', ''Total: $6.25'']"

section \<open>Where the captures of a match lie\<close>

text \<open>
  Every group's opening point is a tail of the text, and every closed group holds a
  contiguous part of the text.
\<close>

definition marks_within :: "string \<Rightarrow> marks \<Rightarrow> bool" where
  "marks_within text m \<longleftrightarrow>
     (\<forall>g. suffix (opened m g) text) \<and> (\<forall>g v. groups m g = Some v \<longrightarrow> sublist v text)"

section \<open>Properties of the matcher\<close>

subsection \<open>Backtracking: a result comes from one of the alternatives tried\<close>

lemma first_some_SomeD: "first_some f xs = Some r \<Longrightarrow> \<exists>x\<in>set xs. f x = Some r"
  by (induction xs) (auto split: option.splits)

lemma first_some_None_iff: "first_some f xs = None \<longleftrightarrow> (\<forall>x\<in>set xs. f x = None)"
  by (induction xs) (auto split: option.splits)

lemma counts_set: "k \<in> set (counts g lo n) \<longleftrightarrow> lo \<le> k \<and> k \<le> n"
  by (auto simp: counts_def)

lemma run_length_le: "run_length p hi s \<le> length s"
  by (induction s arbitrary: hi) auto

lemma run_length_hi: "run_length p (Some h) s \<le> h"
proof (induction s arbitrary: h)
  case Nil
  then show ?case by simp
next
  case (Cons c cs)
  show ?case
  proof (cases h)
    case 0
    then show ?thesis by simp
  next
    case (Suc j)
    with Cons.IH [of j] show ?thesis by simp
  qed
qed

lemma run_length_take: "k \<le> run_length p hi s \<Longrightarrow> list_all p (take k s)"
proof (induction s arbitrary: k hi)
  case Nil
  then show ?case by simp
next
  case (Cons c cs)
  show ?case
  proof (cases k)
    case 0
    then show ?thesis by simp
  next
    case (Suc j)
    with Cons.prems have "p c" and "j \<le> run_length p (map_option (\<lambda>n. n - 1) hi) cs"
      by (auto split: if_splits)
    with Cons.IH Suc show ?thesis by simp
  qed
qed

lemma match_here_append:
  "match_here ic (xs @ ys) i s m = Some r \<Longrightarrow> \<exists>i' s' m'. match_here ic ys i' s' m' = Some r"
proof (induction xs arbitrary: i s m)
  case Nil
  then show ?case by auto
next
  case (Cons x xs)
  show ?case
  proof (cases x)
    case (One a)
    with Cons show ?thesis by (auto split: list.splits if_splits)
  next
    case (Rep a lo hi greedy)
    with Cons.prems obtain k where "match_here ic (xs @ ys) (i + k) (drop k s) m = Some r"
      by (auto dest: first_some_SomeD)
    then show ?thesis by (rule Cons.IH)
  next
    case (Open g)
    with Cons show ?thesis by auto
  next
    case (Close g)
    with Cons show ?thesis by auto
  next
    case (Alts ws)
    with Cons.prems obtain w :: string where "match_here ic (xs @ ys) (i + length w) (drop (length w) s) m = Some r"
      by (auto dest!: first_some_SomeD split: if_splits)
    then show ?thesis by (rule Cons.IH)
  next
    case Bol
    with Cons show ?thesis by (auto split: if_splits)
  next
    case Eol
    with Cons show ?thesis by (auto split: if_splits)
  qed
qed

lemma search_from_SomeD:
  "search_from ic p i s = Some m \<Longrightarrow> \<exists>j t t'. match_here ic p j t no_marks = Some (t', m)"
proof (induction s arbitrary: i)
  case Nil
  then show ?case by auto
next
  case (Cons c cs)
  then show ?case by (auto split: option.splits)
qed

lemma re_search_SomeD:
  "re_search ic p text = Some m \<Longrightarrow> \<exists>j t t'. match_here ic p j t no_marks = Some (t', m)"
  unfolding re_search_def by (rule search_from_SomeD)


lemma lower_dot: "lower c = CHR ''.'' \<Longrightarrow> c = CHR ''.''"
  by (auto simp: lower_def split: if_splits)

lemma lit_dot: "atom_ok ic (Lit CHR ''.'') c \<Longrightarrow> c = CHR ''.''"
proof -
  have "lower CHR ''.'' = CHR ''.''" by (simp add: lower_def)
  then show "atom_ok ic (Lit CHR ''.'') c \<Longrightarrow> c = CHR ''.''"
    by (cases ic) (auto simp: lower_dot)
qed

lemma take_sum3: "take (k + j + l) s = take k s @ take j (drop k s) @ take l (drop j (drop k s))"
  by (metis add.commute drop_drop take_add add.assoc)

lemma length_minus_drops:
  "k \<le> length s \<Longrightarrow> j \<le> length (drop k s) \<Longrightarrow> l \<le> length (drop j (drop k s)) \<Longrightarrow>
   length s - length (drop l (drop j (drop k s))) = k + j + l"
  by simp

lemma decimal_capture:
  assumes "match_here ic [Open g, many1 Digit, optional (Lit CHR ''.''), many0 Digit, Close g] i s m = Some (s', m')"
  shows "\<exists>a d b. groups m' g = Some (a @ d @ b) \<and> a \<noteq> [] \<and> list_all is_decimal a
            \<and> (d = [] \<or> d = ''.'') \<and> list_all is_decimal b"
proof -
  from assms have "first_some (\<lambda>k. match_here ic [optional (Lit CHR ''.''), many0 Digit, Close g]
                        (i + k) (drop k s) (m\<lparr>opened := (opened m)(g := s)\<rparr>))
          (counts True 1 (run_length (atom_ok ic Digit) None s)) = Some (s', m')"
    by (simp only: match_here.simps)
  then obtain k where k: "k \<in> set (counts True 1 (run_length (atom_ok ic Digit) None s))"
    and 1: "match_here ic [optional (Lit CHR ''.''), many0 Digit, Close g] (i + k) (drop k s)
              (m\<lparr>opened := (opened m)(g := s)\<rparr>) = Some (s', m')"
    by (blast dest: first_some_SomeD)
  from 1 have "first_some (\<lambda>j. match_here ic [many0 Digit, Close g]
                        (i + k + j) (drop j (drop k s)) (m\<lparr>opened := (opened m)(g := s)\<rparr>))
          (counts True 0 (run_length (atom_ok ic (Lit CHR ''.'')) (Some 1) (drop k s))) = Some (s', m')"
    by (simp only: match_here.simps)
  then obtain j where j: "j \<in> set (counts True 0 (run_length (atom_ok ic (Lit CHR ''.'')) (Some 1) (drop k s)))"
    and 2: "match_here ic [many0 Digit, Close g] (i + k + j) (drop j (drop k s))
              (m\<lparr>opened := (opened m)(g := s)\<rparr>) = Some (s', m')"
    by (blast dest: first_some_SomeD)
  from 2 have "first_some (\<lambda>l. match_here ic [Close g]
                        (i + k + j + l) (drop l (drop j (drop k s))) (m\<lparr>opened := (opened m)(g := s)\<rparr>))
          (counts True 0 (run_length (atom_ok ic Digit) None (drop j (drop k s)))) = Some (s', m')"
    by (simp only: match_here.simps)
  then obtain l where l: "l \<in> set (counts True 0 (run_length (atom_ok ic Digit) None (drop j (drop k s))))"
    and 3: "match_here ic [Close g] (i + k + j + l) (drop l (drop j (drop k s)))
              (m\<lparr>opened := (opened m)(g := s)\<rparr>) = Some (s', m')"
    by (blast dest: first_some_SomeD)
  let ?a = "take k s" and ?d = "take j (drop k s)" and ?b = "take l (drop j (drop k s))"
  from k have k1: "1 \<le> k" and k2: "k \<le> run_length (atom_ok ic Digit) None s"
    by (simp_all add: counts_set)
  from j have j2: "j \<le> run_length (atom_ok ic (Lit CHR ''.'')) (Some 1) (drop k s)"
    by (simp add: counts_set)
  from l have l2: "l \<le> run_length (atom_ok ic Digit) None (drop j (drop k s))"
    by (simp add: counts_set)
  have kl: "k \<le> length s" using k2 run_length_le le_trans by blast
  have jl: "j \<le> length (drop k s)" using j2 run_length_le le_trans by blast
  have ll: "l \<le> length (drop j (drop k s))" using l2 run_length_le le_trans by blast
  have j1: "j \<le> 1" using j2 run_length_hi le_trans by blast
  from 3 have "groups m' g = Some (take (length s - length (drop l (drop j (drop k s)))) s)"
    by auto
  then have g: "groups m' g = Some (?a @ ?d @ ?b)"
    using length_minus_drops [OF kl jl ll] take_sum3 by metis
  have a: "list_all is_decimal ?a" using run_length_take [OF k2] by (simp add: list_all_iff)
  have a0: "?a \<noteq> []" using k1 kl by auto
  have b: "list_all is_decimal ?b" using run_length_take [OF l2] by (simp add: list_all_iff)
  have "list_all (atom_ok ic (Lit CHR ''.'')) ?d" using run_length_take [OF j2] .
  then have "\<forall>c \<in> set ?d. c = CHR ''.''" unfolding list_all_iff using lit_dot by blast
  moreover have "length ?d \<le> 1" using j1 by simp
  ultimately have d: "?d = [] \<or> ?d = ''.''"
    by (cases ?d) auto
  from g a a0 b d show ?thesis by blast
qed

lemma dot_not_decimal: "\<not> is_decimal CHR ''.''"
  by (simp add: is_decimal_def ord_def)

lemma float_decimal:
  assumes "a \<noteq> []" "list_all is_decimal a" "d = [] \<or> d = ''.''" "list_all is_decimal b"
  shows "\<exists>v. float (a @ d @ b) = Inr v"
proof -
  from assms(3) show ?thesis
  proof
    assume "d = []"
    then have "list_all is_decimal (a @ d @ b)" using assms by simp
    then have tw: "takeWhile is_decimal (a @ d @ b) = a @ d @ b"
      and dw: "dropWhile is_decimal (a @ d @ b) = []"
      by (simp_all add: list_all_iff)
    show ?thesis unfolding float_def Let_def tw dw using assms(1) by simp
  next
    assume d: "d = ''.''"
    have tw: "takeWhile is_decimal (a @ d @ b) = a"
      and dw: "dropWhile is_decimal (a @ d @ b) = CHR ''.'' # b"
      using assms(2) d dot_not_decimal
      by (simp_all add: list_all_iff)
    show ?thesis unfolding float_def Let_def tw dw using assms by simp
  qed
qed

lemma amount_capture_converts:
  assumes "re_search ic (pre @ [Open g, many1 Digit, optional (Lit CHR ''.''), many0 Digit, Close g]) text = Some m"
  shows "\<exists>v. float (group m g) = Inr v"
proof -
  from re_search_SomeD [OF assms] obtain j t t' where
    "match_here ic (pre @ [Open g, many1 Digit, optional (Lit CHR ''.''), many0 Digit, Close g]) j t no_marks = Some (t', m)"
    by blast
  from match_here_append [OF this] obtain i' s' m' where
    "match_here ic [Open g, many1 Digit, optional (Lit CHR ''.''), many0 Digit, Close g] i' s' m' = Some (t', m)"
    by blast
  from decimal_capture [OF this] obtain a d b where
    "groups m g = Some (a @ d @ b)" "a \<noteq> []" "list_all is_decimal a" "d = [] \<or> d = ''.''" "list_all is_decimal b"
    by blast
  then show ?thesis using float_decimal [of a d b] by (simp add: group_def)
qed


lemma match_here_keeps_marks:
  "\<forall>x \<in> set p. \<forall>g. x \<noteq> Open g \<and> x \<noteq> Close g \<Longrightarrow>
   match_here ic p i s m = Some (s', m') \<Longrightarrow> m' = m"
proof (induction p arbitrary: i s)
  case Nil
  then show ?case by simp
next
  case (Cons x xs)
  show ?case
  proof (cases x)
    case (One a)
    with Cons show ?thesis by (auto split: list.splits if_splits)
  next
    case (Rep a lo hi greedy)
    with Cons.prems obtain k where "match_here ic xs (i + k) (drop k s) m = Some (s', m')"
      by (auto dest: first_some_SomeD)
    with Cons show ?thesis by auto
  next
    case (Open g)
    with Cons.prems show ?thesis by auto
  next
    case (Close g)
    with Cons.prems show ?thesis by auto
  next
    case (Alts ws)
    with Cons.prems obtain w :: string where
      "match_here ic xs (i + length w) (drop (length w) s) m = Some (s', m')"
      by (auto dest!: first_some_SomeD split: if_splits)
    with Cons show ?thesis by auto
  next
    case Bol
    with Cons show ?thesis by (auto split: if_splits)
  next
    case Eol
    with Cons show ?thesis by (auto split: if_splits)
  qed
qed

lemma price_capture:
  assumes "match_here ic [Open g, many1 Digit, One (Lit CHR ''.''), between Digit 2 2, Close g,
                          many0 Space, Eol] i s m = Some (s', m')"
  shows "\<exists>a b. groups m' g = Some (a @ ''.'' @ b) \<and> a \<noteq> [] \<and> list_all is_decimal a
            \<and> list_all is_decimal b"
proof -
  let ?M = "m\<lparr>opened := (opened m)(g := s)\<rparr>"
  from assms have "first_some (\<lambda>k. match_here ic [One (Lit CHR ''.''), between Digit 2 2, Close g,
                        many0 Space, Eol] (i + k) (drop k s) ?M)
          (counts True 1 (run_length (atom_ok ic Digit) None s)) = Some (s', m')"
    by (simp only: match_here.simps)
  then obtain k where k: "k \<in> set (counts True 1 (run_length (atom_ok ic Digit) None s))"
    and 1: "match_here ic [One (Lit CHR ''.''), between Digit 2 2, Close g, many0 Space, Eol]
              (i + k) (drop k s) ?M = Some (s', m')"
    by (blast dest: first_some_SomeD)
  from k have k1: "1 \<le> k" and k2: "k \<le> run_length (atom_ok ic Digit) None s"
    by (simp_all add: counts_set)
  have kl: "k \<le> length s" using k2 run_length_le le_trans by blast
  from 1 obtain c cs where ccs: "drop k s = c # cs" and c: "atom_ok ic (Lit CHR ''.'') c"
    and 2: "match_here ic [between Digit 2 2, Close g, many0 Space, Eol] (Suc (i + k)) cs ?M
              = Some (s', m')"
    by (cases "drop k s") (simp_all only: match_here.simps list.case split: if_splits, simp_all)
  from 2 have "first_some (\<lambda>l. match_here ic [Close g, many0 Space, Eol]
                        (Suc (i + k) + l) (drop l cs) ?M)
          (counts True 2 (run_length (atom_ok ic Digit) (Some 2) cs)) = Some (s', m')"
    by (simp only: match_here.simps)
  then obtain l where l: "l \<in> set (counts True 2 (run_length (atom_ok ic Digit) (Some 2) cs))"
    and 3: "match_here ic [Close g, many0 Space, Eol] (Suc (i + k) + l) (drop l cs) ?M
              = Some (s', m')"
    by (blast dest: first_some_SomeD)
  from l have l2: "l \<le> run_length (atom_ok ic Digit) (Some 2) cs"
    by (simp add: counts_set)
  have ll: "l \<le> length cs" using l2 run_length_le le_trans by blast
  let ?M' = "?M\<lparr>groups := (groups ?M)(g \<mapsto> take (length (opened ?M g) - length (drop l cs))
                                              (opened ?M g))\<rparr>"
  from 3 have "match_here ic [many0 Space, Eol] (Suc (i + k) + l) (drop l cs) ?M' = Some (s', m')"
    by (simp only: match_here.simps)
  then have "m' = ?M'"
    by (rule match_here_keeps_marks [rotated]) simp
  then have g: "groups m' g = Some (take (length s - length (drop l cs)) s)"
    by simp
  have s: "s = take k s @ c # cs" using ccs by (metis append_take_drop_id)
  have "length s = k + Suc (length cs)"
    using arg_cong [OF s, of length] kl by simp
  then have "length s - length (drop l cs) = k + Suc l" using ll by simp
  moreover have "take (k + Suc l) s = take k s @ c # take l cs"
    using kl by (subst s) (simp add: min_def)
  ultimately have "groups m' g = Some (take k s @ ''.'' @ take l cs)"
    using g lit_dot [OF c] by simp
  moreover have "list_all is_decimal (take k s)"
    using run_length_take [OF k2] by (simp add: list_all_iff)
  moreover have "take k s \<noteq> []" using k1 kl by auto
  moreover have "list_all is_decimal (take l cs)"
    using run_length_take [OF l2] by (simp add: list_all_iff)
  ultimately show ?thesis by blast
qed

lemma item_price_converts:
  assumes "re_match False item_pattern line = Some m"
  shows "\<exists>v. float (group m 2) = Inr v"
proof -
  let ?pre = "[Bol, Open 1, Rep Dot 1 None False, Close 1, many1 Space, optional (Lit (CHR ''$''))]"
  let ?tail = "[Open 2, many1 Digit, One (Lit CHR ''.''), between Digit 2 2, Close 2, many0 Space, Eol]"
  have ip: "item_pattern = ?pre @ ?tail" by (simp add: item_pattern_def)
  from assms obtain t where "match_here False (?pre @ ?tail) 0 line no_marks = Some (t, m)"
    unfolding re_match_def ip by auto
  from match_here_append [OF this] obtain i' s' m' where
    "match_here False ?tail i' s' m' = Some (t, m)" by blast
  from price_capture [OF this] obtain a b where
    "groups m 2 = Some (a @ ''.'' @ b)" "a \<noteq> []" "list_all is_decimal a" "list_all is_decimal b"
    by blast
  then show ?thesis using float_decimal [of a "''.''" b] by (simp add: group_def)
qed

subsection \<open>The loops of the extractor\<close>

lemma extract_items_eq:
  "extract_items lines acc = Inr (acc @ filter acceptable (List.map_filter item_candidate lines))"
proof (induction lines arbitrary: acc)
  case Nil
  then show ?case by (simp add: List.map_filter_simps)
next
  case (Cons line rest)
  show ?case
  proof (cases "re_search True summary_pattern line \<noteq> None")
    case True
    then show ?thesis using Cons.IH by (simp add: item_candidate_def List.map_filter_simps)
  next
    case False
    note retained = this
    show ?thesis
    proof (cases "re_match False item_pattern line")
      case None
      then show ?thesis using retained Cons.IH
        by (simp add: item_candidate_def List.map_filter_simps)
    next
      case (Some m)
      from item_price_converts [OF Some] obtain v where v: "float (group m 2) = Inr v" by blast
      then have c: "item_candidate line = Some (strip (group m 1), v)"
        using retained Some by (simp add: item_candidate_def)
      show ?thesis using retained Some v c Cons.IH
        by (simp add: List.map_filter_simps acceptable_def Let_def)
    qed
  qed
qed

lemma parse_receipt_text_eq:
  "parse_receipt_text text =
     Inr \<lparr>merchant = find_merchant (take 5 (text_lines text)),
          date = find_date date_patterns text,
          total_amount = find_amount total_patterns text,
          subtotal = single_amount subtotal_pattern text,
          tax = find_amount tax_patterns text,
          tip = single_amount tip_pattern text,
          items = filter acceptable (List.map_filter item_candidate (text_lines text))\<rparr>"
  by (simp add: parse_receipt_text_def extract_items_eq Let_def)

lemma find_date_None_iff:
  "find_date ps text = None \<longleftrightarrow> (\<forall>p \<in> set ps. re_search True p text = None)"
  by (induction ps) (auto split: option.splits)

lemma find_date_first:
  "i < length ps \<Longrightarrow> \<forall>j<i. re_search True (ps ! j) text = None \<Longrightarrow>
   re_search True (ps ! i) text = Some m \<Longrightarrow> find_date ps text = Some (group m 1)"
proof (induction ps arbitrary: i)
  case Nil
  then show ?case by simp
next
  case (Cons p ps)
  show ?case
  proof (cases i)
    case 0
    with Cons.prems show ?thesis by simp
  next
    case (Suc k)
    with Cons.prems have "re_search True p text = None" by auto
    moreover have "find_date ps text = Some (group m 1)"
    proof (rule Cons.IH)
      show "k < length ps" using Cons.prems Suc by simp
      show "\<forall>j<k. re_search True (ps ! j) text = None"
        using Cons.prems(2) Suc by auto
      show "re_search True (ps ! k) text = Some m" using Cons.prems(3) Suc by simp
    qed
    ultimately show ?thesis by simp
  qed
qed

lemma find_date_SomeD:
  "find_date ps text = Some d \<Longrightarrow>
   \<exists>i<length ps. (\<forall>j<i. re_search True (ps ! j) text = None)
      \<and> (\<exists>m. re_search True (ps ! i) text = Some m \<and> d = group m 1)"
proof (induction ps)
  case Nil
  then show ?case by simp
next
  case (Cons p ps)
  show ?case
  proof (cases "re_search True p text")
    case (Some m)
    with Cons.prems have "d = group m 1" by simp
    with Some show ?thesis by (intro exI [of _ 0]) simp
  next
    case None
    with Cons.prems have "find_date ps text = Some d" by simp
    from Cons.IH [OF this] obtain i m where i: "i < length ps"
      "\<forall>j<i. re_search True (ps ! j) text = None"
      "re_search True (ps ! i) text = Some m" "d = group m 1" by blast
    have "\<forall>j<Suc i. re_search True ((p # ps) ! j) text = None"
      using None i(2) by (auto simp: less_Suc_eq_0_disj)
    with i show ?thesis by (intro exI [of _ "Suc i"]) simp
  qed
qed

lemma take_suffix_sublist: "suffix x text \<Longrightarrow> sublist (take n x) text"
  by (metis append_take_drop_id sublist_appendI suffix_def sublist_def append.assoc)

lemma suffix_drop_trans: "suffix s text \<Longrightarrow> suffix (drop k s) text"
  using suffix_drop suffix_order.trans by blast

lemma match_here_within:
  "suffix s text \<Longrightarrow> marks_within text m \<Longrightarrow> match_here ic p i s m = Some (s', m') \<Longrightarrow>
   marks_within text m'"
proof (induction p arbitrary: i s m)
  case Nil
  then show ?case by simp
next
  case (Cons x xs)
  show ?case
  proof (cases x)
    case (One a)
    with Cons.prems obtain c cs where s: "s = c # cs"
      and 1: "match_here ic xs (Suc i) cs m = Some (s', m')"
      by (auto split: list.splits if_splits)
    from s Cons.prems(1) have "suffix cs text" by (auto dest: suffix_ConsD)
    from Cons.IH [OF this Cons.prems(2) 1] show ?thesis .
  next
    case (Rep a lo hi greedy)
    with Cons.prems obtain k where 1: "match_here ic xs (i + k) (drop k s) m = Some (s', m')"
      by (auto dest: first_some_SomeD)
    from Cons.IH [OF suffix_drop_trans [OF Cons.prems(1)] Cons.prems(2) 1] show ?thesis .
  next
    case (Open g)
    with Cons.prems have 1: "match_here ic xs i s (m\<lparr>opened := (opened m)(g := s)\<rparr>) = Some (s', m')"
      by simp
    have "marks_within text (m\<lparr>opened := (opened m)(g := s)\<rparr>)"
      using Cons.prems(1,2) by (simp add: marks_within_def)
    from Cons.IH [OF Cons.prems(1) this 1] show ?thesis .
  next
    case (Close g)
    let ?m = "m\<lparr>groups := (groups m)(g \<mapsto> take (length (opened m g) - length s) (opened m g))\<rparr>"
    from Close Cons.prems have 1: "match_here ic xs i s ?m = Some (s', m')" by simp
    have "marks_within text ?m"
      using Cons.prems(2) by (auto simp: marks_within_def take_suffix_sublist)
    from Cons.IH [OF Cons.prems(1) this 1] show ?thesis .
  next
    case (Alts ws)
    with Cons.prems obtain w :: string where
      1: "match_here ic xs (i + length w) (drop (length w) s) m = Some (s', m')"
      by (auto dest!: first_some_SomeD split: if_splits)
    from Cons.IH [OF suffix_drop_trans [OF Cons.prems(1)] Cons.prems(2) 1] show ?thesis .
  next
    case Bol
    with Cons.prems have 1: "match_here ic xs i s m = Some (s', m')" by (auto split: if_splits)
    from Cons.IH [OF Cons.prems(1,2) 1] show ?thesis .
  next
    case Eol
    with Cons.prems have 1: "match_here ic xs i s m = Some (s', m')" by (auto split: if_splits)
    from Cons.IH [OF Cons.prems(1,2) 1] show ?thesis .
  qed
qed

lemma no_marks_within: "marks_within text no_marks"
  by (simp add: marks_within_def no_marks_def)

lemma search_from_within:
  "suffix s text \<Longrightarrow> search_from ic p i s = Some m \<Longrightarrow> marks_within text m"
proof (induction s arbitrary: i)
  case Nil
  then obtain t where "match_here ic p i [] no_marks = Some (t, m)" by auto
  from match_here_within [OF Nil.prems(1) no_marks_within this] show ?case .
next
  case (Cons c cs)
  show ?case
  proof (cases "match_here ic p i (c # cs) no_marks")
    case None
    with Cons.prems have "search_from ic p (Suc i) cs = Some m" by simp
    moreover have "suffix cs text" using Cons.prems(1) by (auto dest: suffix_ConsD)
    ultimately show ?thesis using Cons.IH by blast
  next
    case (Some r)
    with Cons.prems obtain t where "match_here ic p i (c # cs) no_marks = Some (t, m)"
      by (cases r) auto
    from match_here_within [OF Cons.prems(1) no_marks_within this] show ?thesis .
  qed
qed

lemma group_is_part_of_text:
  assumes "re_search ic p text = Some m"
  shows "sublist (group m g) text"
proof -
  from assms have "marks_within text m"
    unfolding re_search_def by (rule search_from_within [OF suffix_order.refl])
  then show ?thesis by (auto simp: marks_within_def group_def split: option.splits)
qed

subsection \<open>The amount patterns\<close>

lemma find_amount_None_iff:
  "\<forall>p \<in> set ps. \<forall>m. re_search True p text = Some m \<longrightarrow> (\<exists>v. float (group m 1) = Inr v) \<Longrightarrow>
   find_amount ps text = None \<longleftrightarrow> (\<forall>p \<in> set ps. re_search True p text = None)"
proof (induction ps)
  case Nil
  then show ?case by simp
next
  case (Cons p ps)
  show ?case
  proof (cases "re_search True p text")
    case None
    with Cons show ?thesis by simp
  next
    case (Some m)
    with Cons.prems obtain v where "float (group m 1) = Inr v" by auto
    with Some show ?thesis by simp
  qed
qed

lemma find_amount_first:
  "i < length ps \<Longrightarrow> \<forall>j<i. re_search True (ps ! j) text = None \<Longrightarrow>
   re_search True (ps ! i) text = Some m \<Longrightarrow> float (group m 1) = Inr v \<Longrightarrow>
   find_amount ps text = Some v"
proof (induction ps arbitrary: i)
  case Nil
  then show ?case by simp
next
  case (Cons p ps)
  show ?case
  proof (cases i)
    case 0
    with Cons.prems show ?thesis by simp
  next
    case (Suc k)
    with Cons.prems have "re_search True p text = None" by auto
    moreover have "find_amount ps text = Some v"
    proof (rule Cons.IH)
      show "k < length ps" using Cons.prems Suc by simp
      show "\<forall>j<k. re_search True (ps ! j) text = None"
        using Cons.prems(2) Suc by auto
      show "re_search True (ps ! k) text = Some m" using Cons.prems(3) Suc by simp
      show "float (group m 1) = Inr v" by (rule Cons.prems(4))
    qed
    ultimately show ?thesis by simp
  qed
qed

lemma amount_pattern_converts:
  assumes "re_search True (pre @ amount_tail) text = Some m"
  shows "\<exists>v. float (group m 1) = Inr v"
  using amount_capture_converts
    [of True "pre @ [many0 (OneOf [Lit CHR '':'', Space]), optional (Lit (CHR ''$''))]" 1 "text" m]
    assms
  by (simp add: amount_tail_def)

lemma amount_patterns_form:
  assumes "p \<in> set (total_patterns @ subtotal_pattern # tax_patterns @ [tip_pattern])"
  shows "\<exists>pre. p = pre @ amount_tail"
proof -
  have "\<And>a b c. a @ b @ c @ amount_tail = (a @ b @ c) @ amount_tail" by simp
  then show ?thesis using assms
    unfolding total_patterns_def subtotal_pattern_def tax_patterns_def tip_pattern_def
    by (auto; blast)
qed

lemma amount_converts:
  assumes "p \<in> set (total_patterns @ subtotal_pattern # tax_patterns @ [tip_pattern])"
    and "re_search True p text = Some m"
  shows "\<exists>v. float (group m 1) = Inr v"
  using amount_patterns_form [OF assms(1)] assms(2) amount_pattern_converts by blast

lemma single_amount_eq:
  assumes "p \<in> set (total_patterns @ subtotal_pattern # tax_patterns @ [tip_pattern])"
  shows "(single_amount p text = None \<longleftrightarrow> re_search True p text = None)
       \<and> (\<forall>m. re_search True p text = Some m \<longrightarrow>
             map_option Inr (single_amount p text) = Some (float (group m 1)))"
proof (cases "re_search True p text")
  case None
  then show ?thesis by (simp add: single_amount_def)
next
  case (Some m)
  with amount_converts [OF assms] obtain v where "float (group m 1) = Inr v" by blast
  with Some show ?thesis by (simp add: single_amount_def)
qed

lemma find_amount_eq:
  assumes "set ps \<subseteq> set (total_patterns @ subtotal_pattern # tax_patterns @ [tip_pattern])"
  shows "(find_amount ps text = None \<longleftrightarrow> (\<forall>p \<in> set ps. re_search True p text = None))
       \<and> (\<forall>i m. i < length ps \<and> (\<forall>j<i. re_search True (ps ! j) text = None)
                  \<and> re_search True (ps ! i) text = Some m \<longrightarrow>
             map_option Inr (find_amount ps text) = Some (float (group m 1)))"
proof (intro conjI allI impI)
  show "find_amount ps text = None \<longleftrightarrow> (\<forall>p \<in> set ps. re_search True p text = None)"
    using assms amount_converts by (intro find_amount_None_iff) blast
next
  fix i m
  assume a: "i < length ps \<and> (\<forall>j<i. re_search True (ps ! j) text = None)
              \<and> re_search True (ps ! i) text = Some m"
  then have "ps ! i \<in> set (total_patterns @ subtotal_pattern # tax_patterns @ [tip_pattern])"
    using assms nth_mem by blast
  from amount_converts [OF this] a obtain v where v: "float (group m 1) = Inr v" by blast
  with a have "find_amount ps text = Some v" by (intro find_amount_first [of i]) auto
  with v show "map_option Inr (find_amount ps text) = Some (float (group m 1))" by simp
qed


subsection \<open>Searching past a prefix without a match\<close>

lemma search_from_skip:
  "\<forall>i < length pre. match_here ic p (n + i) (drop i (pre @ rest)) no_marks = None \<Longrightarrow>
   rest \<noteq> [] \<Longrightarrow>
   search_from ic p n (pre @ rest) = search_from ic p (n + length pre) rest"
proof (induction pre arbitrary: n)
  case Nil
  then show ?case by simp
next
  case (Cons c cs)
  from Cons.prems(1) have 0: "match_here ic p n (c # cs @ rest) no_marks = None"
    by (metis add.right_neutral append_Cons drop0 length_greater_0_conv list.distinct(1))
  have "\<forall>i < length cs. match_here ic p (Suc n + i) (drop i (cs @ rest)) no_marks = None"
  proof (intro allI impI)
    fix i
    assume "i < length cs"
    then have "Suc i < length (c # cs)" by simp
    with Cons.prems(1) have "match_here ic p (n + Suc i) (drop (Suc i) ((c # cs) @ rest)) no_marks = None"
      by blast
    then show "match_here ic p (Suc n + i) (drop i (cs @ rest)) no_marks = None" by simp
  qed
  from Cons.IH [OF this Cons.prems(2)] 0 show ?case by simp
qed

lemma run_length_stop: "s = [] \<or> \<not> p (hd s) \<Longrightarrow> run_length p hi s = 0"
  by (cases s) auto

lemma total_matches_here:
  assumes "rest = [] \<or> \<not> is_decimal (hd rest)"
  shows "\<exists>m. match_here True (total_patterns ! 0) i (''Total: 10.00'' @ rest) no_marks = Some (rest, m)
             \<and> group m 1 = ''10.00''"
proof -
  have r: "run_length (atom_ok True Digit) None rest = 0"
    using assms by (intro run_length_stop) simp
  show ?thesis
    by (simp add: total_patterns_def lit_def amount_tail_def lower_def counts_def r
          is_decimal_def is_space_def ord_def group_def)
qed


lemma float_10: "float ''10.00'' = Inr 10"
  by code_simp


subsection \<open>Confidence and the pipeline\<close>

lemma sum_list_le_100: "\<forall>c \<in> set xs. c \<le> (100::int) \<Longrightarrow> sum_list xs \<le> 100 * int (length xs)"
  by (induction xs) auto

lemma sum_list_pos: "\<forall>c \<in> set xs. (0::int) < c \<Longrightarrow> 0 \<le> sum_list xs"
  by (induction xs) auto

lemma scalar_confidence_bounds:
  assumes "\<forall>c \<in> set conf. c \<le> 100"
  shows "0 \<le> scalar_confidence conf \<and> scalar_confidence conf \<le> 1"
proof (cases "filter (\<lambda>c. 0 < c) conf = []")
  case True
  then show ?thesis by (simp add: scalar_confidence_def Let_def)
next
  case False
  let ?xs = "filter (\<lambda>c. 0 < c) conf"
  have n: "0 < length ?xs" using False by simp
  have le: "sum_list ?xs \<le> 100 * int (length ?xs)"
    using assms by (intro sum_list_le_100) auto
  have ge: "0 \<le> sum_list ?xs" by (intro sum_list_pos) auto
  have q: "scalar_confidence conf = of_int (sum_list ?xs) / of_nat (length ?xs) / 100"
    using False by (simp add: scalar_confidence_def Let_def)
  have "(of_int (sum_list ?xs) :: rat) \<le> of_int (100 * int (length ?xs))"
    using le of_int_le_iff by blast
  then have "(of_int (sum_list ?xs) :: rat) \<le> 100 * of_nat (length ?xs)" by simp
  then have "(of_int (sum_list ?xs) :: rat) / of_nat (length ?xs) \<le> 100"
    using n by (simp add: pos_divide_le_eq)
  moreover have "(0::rat) \<le> of_int (sum_list ?xs) / of_nat (length ?xs)"
    using ge by simp
  ultimately show ?thesis unfolding q by simp
qed

lemma scan_success_confidence:
  assumes "scan_receipt env job file = Inr resp" "success resp"
  shows "\<exists>d img conf. data resp = Some d \<and> image_to_data env img = Inr conf
            \<and> confidence d = scalar_confidence conf"
proof -
  from assms obtain d where d: "scan_body env file = Inr d" "data resp = Some d"
    by (auto simp: scan_receipt_def split: if_splits sum.splits)
  from d(1) have "\<exists>img conf. image_to_data env img = Inr conf
                    \<and> confidence d = scalar_confidence conf"
    by (fastforce simp: scan_body_def and_then_def extract_text_def parse_receipt_text_eq
          split: if_splits sum.splits)
  with d(2) show ?thesis by blast
qed


lemma collect_angles_eq:
  "collect_angles env ls acc =
     acc @ filter (\<lambda>a. \<bar>a\<bar> < 45)
             (map (\<lambda>(rho, theta). f_sub env (f_div env (f_mul env theta 180) (np_pi env)) 90) ls)"
  by (induction env ls acc rule: collect_angles.induct) (simp_all add: Let_def)


lemma and_then_Inl [simp]: "and_then (Inl e) f = Inl e"
  by (simp add: and_then_def)

lemma and_then_Inr [simp]: "and_then (Inr v) f = f v"
  by (simp add: and_then_def)

lemma parse_empty:
  "parse_receipt_text [] = Inr \<lparr>merchant = None, date = None, total_amount = None, subtotal = None,
                               tax = None, tip = None, items = []\<rparr>"
  by code_simp


section \<open>The claims\<close>

text \<open>
  C1. On the example receipt the extractor finds the merchant, the subtotal, the tax and
  the two items as the specification lists them, but the total it reports is 5.75 and not
  6.25: the pattern for the total is searched in the whole text and its leftmost match is
  the \<^verbatim>\<open>total 5.75\<close> inside \<^verbatim>\<open>Subtotal 5.75\<close>.
\<close>

theorem example_receipt_total_is_subtotal:
  "parse_receipt_text joes_diner =
     Inr \<lparr>merchant = Some ''Joe's Diner'', date = None, total_amount = Some (23 / 4),
          subtotal = Some (23 / 4), tax = Some (1 / 2), tip = None,
          items = [(''Coffee'', 7 / 2), (''Bagel'', 9 / 4)]\<rparr>"
  by code_simp

text \<open>
  C2. Let the text hold \<^verbatim>\<open>Total: 10.00\<close> and, later, \<^verbatim>\<open>Grand Total: 12.00\<close>, let the
  character after \<^verbatim>\<open>Total: 10.00\<close> not be a digit, and let the first total pattern have no
  match that starts before that occurrence. Then the total is 10.00: the first pattern of
  the list is searched first and its leftmost match gives the amount.
\<close>

theorem first_total_match_wins:
  assumes "text = pre @ ''Total: 10.00'' @ mid @ ''Grand Total: 12.00'' @ post"
    and "mid = [] \<or> \<not> is_decimal (hd mid)"
    and "\<forall>i < length pre. match_here True (total_patterns ! 0) i (drop i text) no_marks = None"
  shows "\<exists>r. parse_receipt_text text = Inr r \<and> total_amount r = Some 10"
proof -
  let ?rest = "mid @ ''Grand Total: 12.00'' @ post"
  have nd: "?rest = [] \<or> \<not> is_decimal (hd ?rest)"
    using assms(2) by (cases mid) (simp_all add: is_decimal_def ord_def)
  from total_matches_here [OF nd, of "length pre"] obtain m where
    m: "match_here True (total_patterns ! 0) (length pre) (''Total: 10.00'' @ ?rest) no_marks
          = Some (?rest, m)" "group m 1 = ''10.00''"
    by blast
  have "\<forall>i < length pre. match_here True (total_patterns ! 0) (0 + i)
           (drop i (pre @ ''Total: 10.00'' @ ?rest)) no_marks = None"
    using assms(1,3) by simp
  then have "search_from True (total_patterns ! 0) 0 (pre @ ''Total: 10.00'' @ ?rest)
               = search_from True (total_patterns ! 0) (0 + length pre) (''Total: 10.00'' @ ?rest)"
    by (rule search_from_skip) simp
  also have "\<dots> = Some m" using m(1) by simp
  finally have "re_search True (total_patterns ! 0) text = Some m"
    using assms(1) by (simp add: re_search_def)
  moreover have "total_patterns = total_patterns ! 0 # tl total_patterns"
    by (simp add: total_patterns_def)
  ultimately have "find_amount total_patterns text = Some 10"
    using m(2) float_10 by (metis find_amount.simps(2) option.simps(5) sum.simps(6))
  then show ?thesis by (simp add: parse_receipt_text_eq)
qed


theorem first_total_match_wins_witness:
  "\<exists>r. parse_receipt_text (join_lines [''Hi Total: 10.00'', ''Grand Total: 12.00'']) = Inr r
       \<and> total_amount r = Some 10"
proof -
  let ?t = "join_lines [''Hi Total: 10.00'', ''Grand Total: 12.00'']"
  have t: "?t = ''Hi '' @ ''Total: 10.00'' @ [CHR 0x0A] @ ''Grand Total: 12.00'' @ []"
    by simp
  have m: "[CHR 0x0A] = [] \<or> \<not> is_decimal (hd [CHR 0x0A])"
    by (simp add: is_decimal_def ord_def)
  have "match_here True (total_patterns ! 0) 0 (drop 0 ?t) no_marks = None"
       "match_here True (total_patterns ! 0) 1 (drop 1 ?t) no_marks = None"
       "match_here True (total_patterns ! 0) 2 (drop 2 ?t) no_marks = None"
    by code_simp+
  then have "\<forall>i < length ''Hi ''. match_here True (total_patterns ! 0) i (drop i ?t) no_marks = None"
    by (simp add: less_Suc_eq numeral_2_eq_2 del: join_lines.simps)
  from first_total_match_wins [OF t m this] show ?thesis .
qed

text \<open>
  Without the condition on the next character the amount read is longer: in
  \<^verbatim>\<open>Total: 10.001 Grand Total: 12.00\<close> the capture is greedy and the total is 10.001.
\<close>

theorem longer_amount_after_total:
  "''Total: 10.001 Grand Total: 12.00'' = [] @ ''Total: 10.00'' @ ''1 '' @ ''Grand Total: 12.00'' @ []
   \<and> map_sum id total_amount (parse_receipt_text ''Total: 10.001 Grand Total: 12.00'')
       = Inr (Some (10001 / 1000))
   \<and> (10001 / 1000 :: rat) \<noteq> 10"
proof -
  have "map_sum id total_amount (parse_receipt_text ''Total: 10.001 Grand Total: 12.00'')
       = Inr (Some (10001 / 1000))"
    by code_simp
  then show ?thesis by simp
qed

text \<open>
  C3. When the engine reports confidences between -1 and 100, the confidence that
  \<^verbatim>\<open>extract_text\<close> returns is the mean of the strictly positive ones divided by 100, and 0
  when none is positive; it lies between 0 and 1, and so does the confidence of every
  successful scan.
\<close>

theorem confidence_is_scaled_mean:
  assumes "\<forall>img conf. image_to_data env img = Inr conf \<longrightarrow> (\<forall>c \<in> set conf. - 1 \<le> c \<and> c \<le> 100)"
  shows "(\<forall>img conf text. image_to_data env img = Inr conf \<and> image_to_string env img = Inr text \<longrightarrow>
            (\<exists>q. extract_text env img = Inr (text, q)
               \<and> q = (if \<exists>c \<in> set conf. 0 < c
                      then (of_int (sum_list (filter (\<lambda>c. 0 < c) conf))
                              / of_nat (length (filter (\<lambda>c. 0 < c) conf))) / 100
                      else 0)
               \<and> 0 \<le> q \<and> q \<le> 1))
       \<and> (\<forall>job file resp. scan_receipt env job file = Inr resp \<and> success resp \<longrightarrow>
            (\<exists>d. data resp = Some d \<and> 0 \<le> confidence d \<and> confidence d \<le> 1))"
proof (intro conjI allI impI)
  fix img conf t
  assume a: "image_to_data env img = Inr conf \<and> image_to_string env img = Inr t"
  then have b: "\<forall>c \<in> set conf. c \<le> 100" using assms by blast
  have e: "extract_text env img = Inr (t, scalar_confidence conf)"
    using a by (simp add: extract_text_def and_then_def)
  have q: "scalar_confidence conf =
             (if \<exists>c \<in> set conf. 0 < c
              then (of_int (sum_list (filter (\<lambda>c. 0 < c) conf))
                      / of_nat (length (filter (\<lambda>c. 0 < c) conf))) / 100
              else 0)"
    by (auto simp: scalar_confidence_def filter_empty_conv Let_def)
  show "\<exists>q. extract_text env img = Inr (t, q)
               \<and> q = (if \<exists>c \<in> set conf. 0 < c
                      then (of_int (sum_list (filter (\<lambda>c. 0 < c) conf))
                              / of_nat (length (filter (\<lambda>c. 0 < c) conf))) / 100
                      else 0)
               \<and> 0 \<le> q \<and> q \<le> 1"
    using e q scalar_confidence_bounds [OF b] by metis
next
  fix job f resp
  assume "scan_receipt env job f = Inr resp \<and> success resp"
  then have "scan_receipt env job f = Inr resp" and "success resp" by simp_all
  from scan_success_confidence [OF this]
  obtain d img conf where d: "data resp = Some d" "image_to_data env img = Inr conf"
      "confidence d = scalar_confidence conf"
    by blast
  then have "\<forall>c \<in> set conf. c \<le> 100" using assms by blast
  from scalar_confidence_bounds [OF this] d
  show "\<exists>d. data resp = Some d \<and> 0 \<le> confidence d \<and> confidence d \<le> 1" by simp
qed

theorem confidence_is_scaled_mean_witness:
  "extract_text (sample_backend ''image/png'' None [90, - 1, 70, 0] ''Tea 2.00'') 0
     = Inr (''Tea 2.00'', 4 / 5)
   \<and> (\<exists>d. data (projr (scan_receipt (sample_backend ''image/png'' None [90, - 1, 70, 0] ''Tea 2.00'')
                          ''job'' ''tea.png'')) = Some d
          \<and> 0 \<le> confidence d \<and> confidence d \<le> 1)"
proof -
  let ?env = "sample_backend ''image/png'' None [90, - 1, 70, 0] ''Tea 2.00''"
  have c: "\<forall>img conf. image_to_data ?env img = Inr conf \<longrightarrow> (\<forall>c \<in> set conf. - 1 \<le> c \<and> c \<le> 100)"
    by (simp add: sample_backend_def)
  have d: "image_to_data ?env 0 = Inr [90, - 1, 70, 0] \<and> image_to_string ?env 0 = Inr ''Tea 2.00''"
    by (simp add: sample_backend_def)
  have s: "\<exists>resp. scan_receipt ?env ''job'' ''tea.png'' = Inr resp \<and> success resp"
    by (simp add: scan_receipt_def sample_backend_def allowed_types_def scan_body_def and_then_def
          deskew_image_def extract_text_def parse_receipt_text_eq)
  from confidence_is_scaled_mean [OF c] d s show ?thesis
    by (auto simp: )
qed

text \<open>
  C4. The candidate angles are those of the first ten detected lines, shifted by 90
  degrees with NumPy's arithmetic, whose absolute value is below 45. The image comes back
  unchanged when there is no candidate or when the absolute value of their \<^verbatim>\<open>np.mean\<close> is at
  most 0.5; otherwise the result is the rotation by that mean, with fill colour 255 and
  an expanded canvas.
\<close>

theorem deskew_rotates_only_beyond_half_degree:
  assumes "hough_lines env img = Inr lines"
    and "angles = filter (\<lambda>a. \<bar>a\<bar> < 45)
                    (map (\<lambda>(rho, theta). f_sub env (f_div env (f_mul env theta 180) (np_pi env)) 90)
                       (take 10 (case lines of None \<Rightarrow> [] | Some ls \<Rightarrow> ls)))"
  shows "(angles = [] \<or> \<bar>np_mean env angles\<bar> \<le> 0.5 \<longrightarrow> deskew_image env img = Inr img)
       \<and> (angles \<noteq> [] \<and> \<bar>np_mean env angles\<bar> > 0.5 \<longrightarrow>
            deskew_image env img = rotate env img (np_mean env angles) 255 True)"
  using assms
  by (cases lines) (auto simp: deskew_image_def and_then_def collect_angles_eq Let_def)

theorem deskew_rotates_only_beyond_half_degree_witness:
  "deskew_image (sample_backend ''image/png''
       (Some [(10, 91 * pi / 180), (12, 93 * pi / 180), (5, pi)]) [] []) 7 = Inr 9
   \<and> deskew_image (sample_backend ''image/png''
       (Some [(0, pi / 2), (1, pi / 2), (2, pi / 2), (3, pi / 2), (4, pi / 2), (5, pi / 2),
              (6, pi / 2), (7, pi / 2), (8, pi / 2), (9, pi / 2), (10, 2 * pi / 3)]) [] []) 7 = Inr 7
   \<and> deskew_image (sample_backend ''image/png'' (Some [(3, 181 * pi / 360)]) [] []) 7 = Inr 7
   \<and> deskew_image (sample_backend ''image/png'' None [] []) 7 = Inr 7"
proof -
  let ?A = "[(10, 91 * pi / 180), (12, 93 * pi / 180), (5 :: real, pi)]"
  let ?B = "[(0, pi / 2), (1, pi / 2), (2, pi / 2), (3, pi / 2), (4, pi / 2), (5, pi / 2),
              (6, pi / 2), (7, pi / 2), (8, pi / 2), (9, pi / 2), (10 :: real, 2 * pi / 3)]"
  let ?C = "[(3 :: real, 181 * pi / 360)]"
  let ?env = "\<lambda>ls. sample_backend ''image/png'' ls [] []"
  let ?angles = "\<lambda>ls. filter (\<lambda>a. \<bar>a\<bar> < 45)
                    (map (\<lambda>(rho, theta). f_sub (?env ls) (f_div (?env ls) (f_mul (?env ls) theta 180)
                                                    (np_pi (?env ls))) 90)
                       (take 10 (case ls of None \<Rightarrow> [] | Some l \<Rightarrow> l)))"
  have a: "[1, 3] = ?angles (Some ?A)"
    by (simp add: sample_backend_def)
  have b: "[0, 0, 0, 0, 0, 0, 0, 0, 0, 0] = ?angles (Some ?B)"
    by (simp add: sample_backend_def)
  have c: "[1 / 2] = ?angles (Some ?C)"
    by (simp add: sample_backend_def)
  have d: "[] = ?angles None"
    by simp
  have h: "\<And>ls. hough_lines (?env ls) 7 = Inr ls" by (simp add: sample_backend_def)
  have 1: "deskew_image (?env (Some ?A)) 7 = Inr 9"
    using deskew_rotates_only_beyond_half_degree [OF h a]
    by (simp add: sample_backend_def)
  have 2: "deskew_image (?env (Some ?B)) 7 = Inr 7"
    using deskew_rotates_only_beyond_half_degree [OF h b]
    by (simp add: sample_backend_def)
  have 3: "deskew_image (?env (Some ?C)) 7 = Inr 7"
    using deskew_rotates_only_beyond_half_degree [OF h c]
    by (simp add: sample_backend_def)
  have 4: "deskew_image (?env None) 7 = Inr 7"
    using deskew_rotates_only_beyond_half_degree [OF h d]
    by simp
  from 1 2 3 4 show ?thesis by simp
qed

text \<open>
  C5. The items of the result are the candidates of the lines, in the order of the lines,
  that are acceptable: description longer than two characters and amount strictly between
  0 and 10000. Every retained line that the item pattern matches has a candidate. The
  candidates of \<^verbatim>\<open>Receipt # 15000.00\<close> and of \<^verbatim>\<open>AB 3.00\<close> are not acceptable.
\<close>

theorem items_are_the_acceptable_candidates:
  "(\<exists>r. parse_receipt_text text = Inr r
       \<and> items r = filter acceptable (List.map_filter item_candidate (text_lines text)))
   \<and> (\<forall>line m. re_search True summary_pattern line = None
                 \<and> re_match False item_pattern line = Some m \<longrightarrow>
         (\<exists>amount. float (group m 2) = Inr amount
                   \<and> item_candidate line = Some (strip (group m 1), amount)))
   \<and> (\<forall>c. acceptable c \<longleftrightarrow> length (fst c) > 2 \<and> 0 < snd c \<and> snd c < 10000)
   \<and> item_candidate ''Receipt # 15000.00'' = Some (''Receipt #'', 15000)
   \<and> \<not> acceptable (''Receipt #'', 15000)
   \<and> item_candidate ''AB 3.00'' = Some (''AB'', 3)
   \<and> \<not> acceptable (''AB'', 3)"
proof -
  have 1: "\<exists>r. parse_receipt_text text = Inr r
       \<and> items r = filter acceptable (List.map_filter item_candidate (text_lines text))"
    by (simp add: parse_receipt_text_eq)
  have 2: "\<forall>line m. re_search True summary_pattern line = None
                 \<and> re_match False item_pattern line = Some m \<longrightarrow>
         (\<exists>amount. float (group m 2) = Inr amount
                   \<and> item_candidate line = Some (strip (group m 1), amount))"
  proof (intro allI impI)
    fix line m
    assume a: "re_search True summary_pattern line = None
                 \<and> re_match False item_pattern line = Some m"
    then obtain v where "float (group m 2) = Inr v" using item_price_converts by blast
    with a show "\<exists>amount. float (group m 2) = Inr amount
                   \<and> item_candidate line = Some (strip (group m 1), amount)"
      by (simp add: item_candidate_def)
  qed
  have 3: "item_candidate ''Receipt # 15000.00'' = Some (''Receipt #'', 15000)"
    by code_simp
  have 4: "item_candidate ''AB 3.00'' = Some (''AB'', 3)"
    by code_simp
  have 5: "\<not> acceptable (''Receipt #'', 15000)" "\<not> acceptable (''AB'', 3)"
    by (simp_all add: acceptable_def)
  have 6: "\<forall>c. acceptable c \<longleftrightarrow> length (fst c) > 2 \<and> 0 < snd c \<and> snd c < 10000"
    by (simp add: acceptable_def)
  from 1 2 3 4 5 6 show ?thesis by blast
qed

theorem items_are_the_acceptable_candidates_witness:
  "map_sum id items (parse_receipt_text
       (join_lines [''Coffee 3.50'', ''AB 3.00'', ''Receipt # 15000.00'', ''Bagel 2.25'']))
     = Inr [(''Coffee'', 7 / 2), (''Bagel'', 9 / 4)]"
proof -
  let ?t = "join_lines [''Coffee 3.50'', ''AB 3.00'', ''Receipt # 15000.00'', ''Bagel 2.25'']"
  have "filter acceptable (List.map_filter item_candidate (text_lines ?t))
          = [(''Coffee'', 7 / 2), (''Bagel'', 9 / 4)]"
    by code_simp
  with items_are_the_acceptable_candidates [of ?t] show ?thesis by auto
qed

text \<open>
  C6. The date is unset exactly when none of the four date patterns matches the text.
  When it is set, it is group 1 of the match of the first pattern, in the order of the
  list, that matches somewhere in the text, searched without regard to case, and it is a
  contiguous part of the text, kept as it stands: \<^verbatim>\<open>02/30/2024\<close> is stored unchanged.
\<close>

theorem date_is_first_matching_capture:
  "(\<exists>r. parse_receipt_text text = Inr r
       \<and> (date r = None \<longleftrightarrow> (\<forall>p \<in> set date_patterns. re_search True p text = None))
       \<and> (\<forall>d. date r = Some d \<longrightarrow>
             sublist d text
             \<and> (\<exists>i<length date_patterns.
                   (\<forall>j<i. re_search True (date_patterns ! j) text = None)
                   \<and> (\<exists>m. re_search True (date_patterns ! i) text = Some m \<and> d = group m 1))))
   \<and> length date_patterns = 4
   \<and> map_sum id date (parse_receipt_text ''02/30/2024'') = Inr (Some ''02/30/2024'')"
proof -
  have "\<forall>d. find_date date_patterns text = Some d \<longrightarrow>
             sublist d text
             \<and> (\<exists>i<length date_patterns.
                   (\<forall>j<i. re_search True (date_patterns ! j) text = None)
                   \<and> (\<exists>m. re_search True (date_patterns ! i) text = Some m \<and> d = group m 1))"
  proof (intro allI impI)
    fix d
    assume "find_date date_patterns text = Some d"
    from find_date_SomeD [OF this] obtain i m where i: "i < length date_patterns"
      "\<forall>j<i. re_search True (date_patterns ! j) text = None"
      "re_search True (date_patterns ! i) text = Some m" "d = group m 1"
      by blast
    from group_is_part_of_text [OF i(3)] i(4) have "sublist d text" by simp
    with i show "sublist d text
             \<and> (\<exists>i<length date_patterns.
                   (\<forall>j<i. re_search True (date_patterns ! j) text = None)
                   \<and> (\<exists>m. re_search True (date_patterns ! i) text = Some m \<and> d = group m 1))"
      by blast
  qed
  moreover have "length date_patterns = 4" by (simp add: date_patterns_def)
  moreover have "find_date date_patterns ''02/30/2024'' = Some ''02/30/2024''" by code_simp
  ultimately show ?thesis
    by (simp add: parse_receipt_text_eq find_date_None_iff)
qed

theorem date_is_first_matching_capture_witness:
  "map_sum id date (parse_receipt_text ''Paid 2024-02-30 cash'') = Inr (Some ''24-02-30'')
   \<and> sublist ''24-02-30'' ''Paid 2024-02-30 cash''"
proof -
  have "find_date date_patterns ''Paid 2024-02-30 cash'' = Some ''24-02-30''" by code_simp
  then have "map_sum id date (parse_receipt_text ''Paid 2024-02-30 cash'') = Inr (Some ''24-02-30'')"
    by (simp add: parse_receipt_text_eq)
  with date_is_first_matching_capture [of "''Paid 2024-02-30 cash''"] show ?thesis by auto
qed

text \<open>
  C7. For an upload whose content type is one of the allowed ones, \<^verbatim>\<open>scan_receipt\<close> either
  returns a response or lets through an exception that is not an instance of
  \<^verbatim>\<open>Exception\<close>. A response carries the job identifier and is either a success with receipt
  data and no error, or a failure with an error description and no data. If reading,
  decoding, conversion, preprocessing, deskewing or recognition raises an instance of
  \<^verbatim>\<open>Exception\<close>, the response is the failure with that exception's message; if it raises
  anything else, that exception leaves the function. If they all return, parsing returns
  too and the response is the success built from its fields.
\<close>

theorem scan_returns_success_or_failure:
  assumes "content_type env file \<in> set allowed_types"
  shows "((\<exists>resp. scan_receipt env job file = Inr resp \<and> job_id resp = job
              \<and> (success resp \<longleftrightarrow> data resp \<noteq> None) \<and> (success resp \<longleftrightarrow> error resp = None))
          \<or> (\<exists>e. \<not> is_Exception e \<and> scan_receipt env job file = Inl (Propagated e)))
       \<and> (\<forall>contents img rgb processed straight e.
             (read_file env file = Inl e
              \<or> read_file env file = Inr contents
                \<and> (image_open env contents = Inl e
                   \<or> image_open env contents = Inr img
                     \<and> ((if mode env img \<in> {''RGBA'', ''P''} then convert env img ''RGB''
                          else Inr img) = Inl e
                        \<or> (if mode env img \<in> {''RGBA'', ''P''} then convert env img ''RGB''
                            else Inr img) = Inr rgb
                          \<and> (preprocess_image env rgb = Inl e
                             \<or> preprocess_image env rgb = Inr processed
                               \<and> (deskew_image env processed = Inl e
                                  \<or> deskew_image env processed = Inr straight
                                    \<and> extract_text env straight = Inl e))))) \<longrightarrow>
             scan_receipt env job file =
               (if is_Exception e
                then Inr \<lparr>success = False, job_id = job, data = None, error = Some (message e)\<rparr>
                else Inl (Propagated e)))
       \<and> (\<forall>contents img rgb processed straight raw conf.
             read_file env file = Inr contents
             \<and> image_open env contents = Inr img
             \<and> (if mode env img \<in> {''RGBA'', ''P''} then convert env img ''RGB''
                 else Inr img) = Inr rgb
             \<and> preprocess_image env rgb = Inr processed
             \<and> deskew_image env processed = Inr straight
             \<and> extract_text env straight = Inr (raw, conf) \<longrightarrow>
             (\<exists>parsed. parse_receipt_text raw = Inr parsed
                \<and> scan_receipt env job file =
                    Inr \<lparr>success = True, job_id = job,
                         data = Some \<lparr>merchant = merchant parsed, date = date parsed,
                                      total_amount = total_amount parsed,
                                      subtotal = subtotal parsed, tax = tax parsed,
                                      tip = tip parsed, items = items parsed,
                                      raw_text = raw, confidence = conf\<rparr>,
                         error = None\<rparr>))"
proof (intro conjI allI impI)
  show "(\<exists>resp. scan_receipt env job file = Inr resp \<and> job_id resp = job
              \<and> (success resp \<longleftrightarrow> data resp \<noteq> None) \<and> (success resp \<longleftrightarrow> error resp = None))
          \<or> (\<exists>e. \<not> is_Exception e \<and> scan_receipt env job file = Inl (Propagated e))"
  proof (cases "scan_body env file")
    case (Inr d)
    then show ?thesis using assms by (simp add: scan_receipt_def)
  next
    case (Inl e)
    then show ?thesis using assms by (cases "is_Exception e") (simp_all add: scan_receipt_def)
  qed
next
  fix contents img rgb processed straight e
  assume "read_file env file = Inl e
              \<or> read_file env file = Inr contents
                \<and> (image_open env contents = Inl e
                   \<or> image_open env contents = Inr img
                     \<and> ((if mode env img \<in> {''RGBA'', ''P''} then convert env img ''RGB''
                          else Inr img) = Inl e
                        \<or> (if mode env img \<in> {''RGBA'', ''P''} then convert env img ''RGB''
                            else Inr img) = Inr rgb
                          \<and> (preprocess_image env rgb = Inl e
                             \<or> preprocess_image env rgb = Inr processed
                               \<and> (deskew_image env processed = Inl e
                                  \<or> deskew_image env processed = Inr straight
                                    \<and> extract_text env straight = Inl e))))"
  then have "scan_body env file = Inl e"
    unfolding scan_body_def by (elim disjE conjE) simp_all
  then show "scan_receipt env job file =
               (if is_Exception e
                then Inr \<lparr>success = False, job_id = job, data = None, error = Some (message e)\<rparr>
                else Inl (Propagated e))"
    using assms by (simp add: scan_receipt_def)
next
  fix contents img rgb processed straight raw conf
  assume a: "read_file env file = Inr contents
             \<and> image_open env contents = Inr img
             \<and> (if mode env img \<in> {''RGBA'', ''P''} then convert env img ''RGB''
                 else Inr img) = Inr rgb
             \<and> preprocess_image env rgb = Inr processed
             \<and> deskew_image env processed = Inr straight
             \<and> extract_text env straight = Inr (raw, conf)"
  obtain parsed where p: "parse_receipt_text raw = Inr parsed"
    using parse_receipt_text_eq by blast
  have "scan_body env file = Inr \<lparr>merchant = merchant parsed, date = date parsed,
                                      total_amount = total_amount parsed,
                                      subtotal = subtotal parsed, tax = tax parsed,
                                      tip = tip parsed, items = items parsed,
                                      raw_text = raw, confidence = conf\<rparr>"
    using a p unfolding scan_body_def by simp
  then show "\<exists>parsed. parse_receipt_text raw = Inr parsed
                \<and> scan_receipt env job file =
                    Inr \<lparr>success = True, job_id = job,
                         data = Some \<lparr>merchant = merchant parsed, date = date parsed,
                                      total_amount = total_amount parsed,
                                      subtotal = subtotal parsed, tax = tax parsed,
                                      tip = tip parsed, items = items parsed,
                                      raw_text = raw, confidence = conf\<rparr>,
                         error = None\<rparr>"
    using assms p by (simp add: scan_receipt_def)
qed

theorem scan_returns_success_or_failure_witness:
  "scan_receipt ((sample_backend ''image/png'' None [] [])
                   \<lparr>image_open := (\<lambda>contents. Inl (OtherException ''cannot identify image file''))\<rparr>)
       ''job-1'' ''torn.png''
     = Inr \<lparr>success = False, job_id = ''job-1'', data = None,
            error = Some ''cannot identify image file''\<rparr>
   \<and> (\<exists>d. scan_receipt (sample_backend ''image/png'' None [] ''Tea 2.00'') ''job-2'' ''tea.png''
            = Inr \<lparr>success = True, job_id = ''job-2'', data = Some d, error = None\<rparr>)
   \<and> scan_receipt ((sample_backend ''image/png'' None [] [])
                   \<lparr>image_to_string := (\<lambda>img. Inl (OtherBaseException ''KeyboardInterrupt''))\<rparr>)
       ''job-3'' ''tea.png''
     = Inl (Propagated (OtherBaseException ''KeyboardInterrupt''))"
proof -
  let ?bad = "(sample_backend ''image/png'' None [] [])
                   \<lparr>image_open := (\<lambda>contents. Inl (OtherException ''cannot identify image file''))\<rparr>"
  let ?good = "sample_backend ''image/png'' None [] ''Tea 2.00''"
  let ?int = "(sample_backend ''image/png'' None [] [])
                   \<lparr>image_to_string := (\<lambda>img. Inl (OtherBaseException ''KeyboardInterrupt''))\<rparr>"
  have 1: "content_type ?bad ''torn.png'' \<in> set allowed_types"
    by (simp add: sample_backend_def allowed_types_def)
  have 2: "content_type ?good ''tea.png'' \<in> set allowed_types"
    by (simp add: sample_backend_def allowed_types_def)
  have 3: "content_type ?int ''tea.png'' \<in> set allowed_types"
    by (simp add: sample_backend_def allowed_types_def)
  have b: "read_file ?bad ''torn.png'' = Inr ''torn.png''
           \<and> image_open ?bad ''torn.png'' = Inl (OtherException ''cannot identify image file'')"
    by (simp add: sample_backend_def)
  have g: "read_file ?good ''tea.png'' = Inr ''tea.png''
             \<and> image_open ?good ''tea.png'' = Inr 0
             \<and> (if mode ?good 0 \<in> {''RGBA'', ''P''} then convert ?good 0 ''RGB''
                 else Inr 0) = Inr 0
             \<and> preprocess_image ?good 0 = Inr 0
             \<and> deskew_image ?good 0 = Inr 0
             \<and> extract_text ?good 0 = Inr (''Tea 2.00'', 0)"
    by (simp add: sample_backend_def deskew_image_def extract_text_def scalar_confidence_def)
  have i: "read_file ?int ''tea.png'' = Inr ''tea.png''
             \<and> image_open ?int ''tea.png'' = Inr 0
             \<and> (if mode ?int 0 \<in> {''RGBA'', ''P''} then convert ?int 0 ''RGB''
                 else Inr 0) = Inr 0
             \<and> preprocess_image ?int 0 = Inr 0
             \<and> deskew_image ?int 0 = Inr 0
             \<and> extract_text ?int 0 = Inl (OtherBaseException ''KeyboardInterrupt'')"
    by (simp add: sample_backend_def deskew_image_def extract_text_def)
  from scan_returns_success_or_failure [OF 1, of "''job-1''", THEN conjunct2, THEN conjunct1,
         rule_format, of "OtherException ''cannot identify image file''" "''torn.png''"] b
  have "scan_receipt ?bad ''job-1'' ''torn.png''
           = Inr \<lparr>success = False, job_id = ''job-1'', data = None,
                  error = Some ''cannot identify image file''\<rparr>"
    by simp
  moreover
  from scan_returns_success_or_failure [OF 2, of "''job-2''", THEN conjunct2, THEN conjunct2,
         rule_format, OF g]
  have "\<exists>d. scan_receipt ?good ''job-2'' ''tea.png''
            = Inr \<lparr>success = True, job_id = ''job-2'', data = Some d, error = None\<rparr>"
    by blast
  moreover
  from scan_returns_success_or_failure [OF 3, of "''job-3''", THEN conjunct2, THEN conjunct1,
         rule_format, of "OtherBaseException ''KeyboardInterrupt''" "''tea.png''" 0 0 0 0] i
  have "scan_receipt ?int ''job-3'' ''tea.png''
           = Inl (Propagated (OtherBaseException ''KeyboardInterrupt''))"
    by simp
  ultimately show ?thesis by simp
qed

text \<open>
  The handler is \<^verbatim>\<open>except Exception\<close>: when the request is cancelled while the upload is
  read, \<^verbatim>\<open>asyncio.CancelledError\<close> leaves \<^verbatim>\<open>scan_receipt\<close>, and the result is neither a success
  nor a failure response.
\<close>

theorem cancelled_read_leaves_scan:
  "content_type ((sample_backend ''image/png'' None [] ''Tea 2.00'')
                   \<lparr>read_file := (\<lambda>f. Inl CancelledError)\<rparr>) ''tea.png'' \<in> set allowed_types
   \<and> scan_receipt ((sample_backend ''image/png'' None [] ''Tea 2.00'')
                     \<lparr>read_file := (\<lambda>f. Inl CancelledError)\<rparr>) ''job-4'' ''tea.png''
       = Inl (Propagated CancelledError)"
  by (simp add: scan_receipt_def scan_body_def sample_backend_def allowed_types_def)

text \<open>
  C8. When every step up to recognition returns and the recognized text is empty, the scan
  is a success whose record has every field unset, no items and the empty raw text. Its
  confidence is the mean of the positive token confidences over 100, and 0 when no token
  has a positive confidence.
\<close>

theorem blank_scan_is_success:
  assumes "content_type env file \<in> set allowed_types"
    and "read_file env file = Inr contents"
    and "image_open env contents = Inr img"
    and "(if mode env img \<in> {''RGBA'', ''P''} then convert env img ''RGB'' else Inr img) = Inr rgb"
    and "preprocess_image env rgb = Inr processed"
    and "deskew_image env processed = Inr straight"
    and "image_to_data env straight = Inr conf"
    and "image_to_string env straight = Inr []"
  shows "parse_receipt_text [] =
           Inr \<lparr>merchant = None, date = None, total_amount = None, subtotal = None,
                tax = None, tip = None, items = []\<rparr>
       \<and> scan_receipt env job file =
           Inr \<lparr>success = True, job_id = job,
                data = Some \<lparr>merchant = None, date = None, total_amount = None, subtotal = None,
                             tax = None, tip = None, items = [], raw_text = [],
                             confidence =
                               (if \<exists>c \<in> set conf. 0 < c
                                then (of_int (sum_list (filter (\<lambda>c. 0 < c) conf))
                                        / of_nat (length (filter (\<lambda>c. 0 < c) conf))) / 100
                                else 0)\<rparr>,
                error = None\<rparr>"
proof -
  have q: "scalar_confidence conf =
             (if \<exists>c \<in> set conf. 0 < c
              then (of_int (sum_list (filter (\<lambda>c. 0 < c) conf))
                      / of_nat (length (filter (\<lambda>c. 0 < c) conf))) / 100
              else 0)"
    by (auto simp: scalar_confidence_def filter_empty_conv Let_def)
  have "extract_text env straight = Inr ([], scalar_confidence conf)"
    using assms(7,8) by (simp add: extract_text_def)
  then have "scan_body env file =
               Inr \<lparr>merchant = None, date = None, total_amount = None, subtotal = None,
                    tax = None, tip = None, items = [], raw_text = [],
                    confidence = scalar_confidence conf\<rparr>"
    using assms(2-6) parse_empty unfolding scan_body_def by simp
  then show ?thesis using assms(1) parse_empty unfolding q by (simp add: scan_receipt_def)
qed

theorem blank_scan_is_success_witness:
  "scan_receipt (sample_backend ''image/png'' None [- 1, 0, - 1] []) ''job-5'' ''blank.png'' =
           Inr \<lparr>success = True, job_id = ''job-5'',
                data = Some \<lparr>merchant = None, date = None, total_amount = None, subtotal = None,
                             tax = None, tip = None, items = [], raw_text = [],
                             confidence = 0\<rparr>,
                error = None\<rparr>
   \<and> scan_receipt (sample_backend ''image/png'' None [90, - 1, 70] []) ''job-6'' ''faint.png'' =
           Inr \<lparr>success = True, job_id = ''job-6'',
                data = Some \<lparr>merchant = None, date = None, total_amount = None, subtotal = None,
                             tax = None, tip = None, items = [], raw_text = [],
                             confidence = 4 / 5\<rparr>,
                error = None\<rparr>"
proof -
  have 1: "scan_receipt (sample_backend ''image/png'' None [- 1, 0, - 1] []) ''job-5'' ''blank.png'' =
           Inr \<lparr>success = True, job_id = ''job-5'',
                data = Some \<lparr>merchant = None, date = None, total_amount = None, subtotal = None,
                             tax = None, tip = None, items = [], raw_text = [],
                             confidence = 0\<rparr>,
                error = None\<rparr>"
    using blank_scan_is_success [of "sample_backend ''image/png'' None [- 1, 0, - 1] []"
        "''blank.png''" "''blank.png''" 0 0 0 0 "[- 1, 0, - 1]" "''job-5''"]
    by (simp add: sample_backend_def allowed_types_def deskew_image_def)
  have 2: "scan_receipt (sample_backend ''image/png'' None [90, - 1, 70] []) ''job-6'' ''faint.png'' =
           Inr \<lparr>success = True, job_id = ''job-6'',
                data = Some \<lparr>merchant = None, date = None, total_amount = None, subtotal = None,
                             tax = None, tip = None, items = [], raw_text = [],
                             confidence = 4 / 5\<rparr>,
                error = None\<rparr>"
    using blank_scan_is_success [of "sample_backend ''image/png'' None [90, - 1, 70] []"
        "''faint.png''" "''faint.png''" 0 0 0 0 "[90, - 1, 70]" "''job-6''"]
    by (simp add: sample_backend_def allowed_types_def deskew_image_def)
  from 1 2 show ?thesis by simp
qed

text \<open>
  The confidence comes from the engine's token table and not from the text: with an empty
  text and one token scored 50 the record carries confidence 0.5.
\<close>

theorem empty_text_with_scored_token:
  "scan_receipt (sample_backend ''image/png'' None [50] []) ''job-7'' ''smudge.png'' =
           Inr \<lparr>success = True, job_id = ''job-7'',
                data = Some \<lparr>merchant = None, date = None, total_amount = None, subtotal = None,
                             tax = None, tip = None, items = [], raw_text = [],
                             confidence = 1 / 2\<rparr>,
                error = None\<rparr>"
  by (simp add: scan_receipt_def sample_backend_def allowed_types_def scan_body_def
        deskew_image_def extract_text_def scalar_confidence_def parse_empty)

text \<open>
  C9. Whatever the text, group 1 of a match of any total, subtotal, tax or tip pattern
  converts to a number, so the \<^verbatim>\<open>ValueError\<close> branches are never taken: a field is unset
  exactly when none of its patterns matches, and otherwise it is the number captured by
  the first of its patterns that matches.
\<close>

theorem amount_captures_always_convert:
  "(\<forall>p m. p \<in> set (total_patterns @ subtotal_pattern # tax_patterns @ [tip_pattern])
            \<and> re_search True p text = Some m \<longrightarrow> (\<exists>v. float (group m 1) = Inr v))
   \<and> (\<exists>r. parse_receipt_text text = Inr r
        \<and> (total_amount r = None \<longleftrightarrow> (\<forall>p \<in> set total_patterns. re_search True p text = None))
        \<and> (\<forall>i m. i < length total_patterns
                  \<and> (\<forall>j<i. re_search True (total_patterns ! j) text = None)
                  \<and> re_search True (total_patterns ! i) text = Some m \<longrightarrow>
               map_option Inr (total_amount r) = Some (float (group m 1)))
        \<and> (subtotal r = None \<longleftrightarrow> re_search True subtotal_pattern text = None)
        \<and> (\<forall>m. re_search True subtotal_pattern text = Some m \<longrightarrow>
               map_option Inr (subtotal r) = Some (float (group m 1)))
        \<and> (tax r = None \<longleftrightarrow> (\<forall>p \<in> set tax_patterns. re_search True p text = None))
        \<and> (\<forall>i m. i < length tax_patterns
                  \<and> (\<forall>j<i. re_search True (tax_patterns ! j) text = None)
                  \<and> re_search True (tax_patterns ! i) text = Some m \<longrightarrow>
               map_option Inr (tax r) = Some (float (group m 1)))
        \<and> (tip r = None \<longleftrightarrow> re_search True tip_pattern text = None)
        \<and> (\<forall>m. re_search True tip_pattern text = Some m \<longrightarrow>
               map_option Inr (tip r) = Some (float (group m 1))))"
proof -
  have 1: "\<forall>p m. p \<in> set (total_patterns @ subtotal_pattern # tax_patterns @ [tip_pattern])
            \<and> re_search True p text = Some m \<longrightarrow> (\<exists>v. float (group m 1) = Inr v)"
    using amount_converts by blast
  have t: "set total_patterns \<subseteq> set (total_patterns @ subtotal_pattern # tax_patterns @ [tip_pattern])"
    and x: "set tax_patterns \<subseteq> set (total_patterns @ subtotal_pattern # tax_patterns @ [tip_pattern])"
    and s: "subtotal_pattern \<in> set (total_patterns @ subtotal_pattern # tax_patterns @ [tip_pattern])"
    and p: "tip_pattern \<in> set (total_patterns @ subtotal_pattern # tax_patterns @ [tip_pattern])"
    by auto
  show ?thesis
    using 1 find_amount_eq [OF t, of "text"] find_amount_eq [OF x, of "text"]
      single_amount_eq [OF s, of "text"] single_amount_eq [OF p, of "text"]
    by (simp add: parse_receipt_text_eq)
qed

theorem amount_captures_always_convert_witness:
  "\<exists>r. parse_receipt_text ''Tax 1.5 Total $12'' = Inr r
       \<and> total_amount r = Some 12 \<and> tax r = Some (3 / 2) \<and> subtotal r = None \<and> tip r = None"
proof -
  let ?t = "''Tax 1.5 Total $12''"
  have a: "re_search True subtotal_pattern ?t = None"
          "re_search True tip_pattern ?t = None"
    by code_simp+
  have b: "map_option (\<lambda>m. float (group m 1)) (re_search True (total_patterns ! 0) ?t) = Some (Inr 12)"
          "map_option (\<lambda>m. float (group m 1)) (re_search True (tax_patterns ! 0) ?t) = Some (Inr (3 / 2))"
    by code_simp+
  have l: "0 < length total_patterns" "0 < length tax_patterns"
    by (simp_all add: total_patterns_def tax_patterns_def)
  from amount_captures_always_convert [of ?t, THEN conjunct2] obtain r where r:
    "parse_receipt_text ?t = Inr r"
    "\<forall>i m. i < length total_patterns
                  \<and> (\<forall>j<i. re_search True (total_patterns ! j) ?t = None)
                  \<and> re_search True (total_patterns ! i) ?t = Some m \<longrightarrow>
               map_option Inr (total_amount r) = Some (float (group m 1))"
    "\<forall>i m. i < length tax_patterns
                  \<and> (\<forall>j<i. re_search True (tax_patterns ! j) ?t = None)
                  \<and> re_search True (tax_patterns ! i) ?t = Some m \<longrightarrow>
               map_option Inr (tax r) = Some (float (group m 1))"
    "subtotal r = None \<longleftrightarrow> re_search True subtotal_pattern ?t = None"
    "tip r = None \<longleftrightarrow> re_search True tip_pattern ?t = None"
    by (elim exE conjE) (rule that; assumption)
  from b(1) obtain m where m: "re_search True (total_patterns ! 0) ?t = Some m" "float (group m 1) = Inr 12"
    by auto
  from b(2) obtain n where n: "re_search True (tax_patterns ! 0) ?t = Some n" "float (group n 1) = Inr (3 / 2)"
    by auto
  from r(2) [rule_format, of 0 m] m l have "total_amount r = Some 12" by auto
  moreover from r(3) [rule_format, of 0 n] n l have "tax r = Some (3 / 2)" by auto
  ultimately show ?thesis using r(1,4,5) a by auto
qed

text \<open>
  C10. The third date pattern takes any three word characters where the month is expected.
  The text \<^verbatim>\<open>#42: 123 45, 2024.\<close> has no letter; the two numeric patterns and the fourth
  pattern do not match it, the third pattern matches with the capture \<^verbatim>\<open>123 45, 2024\<close>, and
  that capture is the date. The same holds for the text \<^verbatim>\<open>123 45, 2024\<close> alone.
\<close>

theorem numeric_month_accepted:
  "\<not> list_ex is_alpha ''#42: 123 45, 2024.''
   \<and> re_search True (date_patterns ! 0) ''#42: 123 45, 2024.'' = None
   \<and> re_search True (date_patterns ! 1) ''#42: 123 45, 2024.'' = None
   \<and> map_option (\<lambda>m. group m 1) (re_search True (date_patterns ! 2) ''#42: 123 45, 2024.'')
       = Some ''123 45, 2024''
   \<and> re_search True (date_patterns ! 3) ''#42: 123 45, 2024.'' = None
   \<and> map_sum id date (parse_receipt_text ''#42: 123 45, 2024.'') = Inr (Some ''123 45, 2024'')
   \<and> \<not> list_ex is_alpha ''123 45, 2024''
   \<and> re_search True (date_patterns ! 0) ''123 45, 2024'' = None
   \<and> re_search True (date_patterns ! 1) ''123 45, 2024'' = None
   \<and> map_option (\<lambda>m. group m 1) (re_search True (date_patterns ! 2) ''123 45, 2024'')
       = Some ''123 45, 2024''
   \<and> re_search True (date_patterns ! 3) ''123 45, 2024'' = None
   \<and> map_sum id date (parse_receipt_text ''123 45, 2024'') = Inr (Some ''123 45, 2024'')
   \<and> date_patterns ! 2 =
        [Open 1, between Word 3 3, many1 Space, between Digit 1 2, optional (Lit CHR '',''),
         many1 Space, between Digit 4 4, Close 1]"
  by code_simp

end
